theory Spec2Isabelle
  imports Complex_Main "HOL-Library.Sublist"
begin

section \<open>JavaScript values used by the components\<close>

text \<open>
  The components are TypeScript. A \<open>number\<close> that holds a coordinate, a size or a scale
  is modelled as a \<open>real\<close> (exact arithmetic: rounding of doubles is outside the model),
  a \<open>number\<close> that holds a page index or a count as a \<open>nat\<close>, a rotation angle as an
  \<open>int\<close>. A string is a \<open>string\<close> of code units below 256.
  An exception thrown by the code or by one of the libraries it calls is a value of
  type \<open>error\<close>.
\<close>

datatype error =
    TypeError          \<comment> \<open>property access on \<open>undefined\<close>\<close>
  | LoadError          \<comment> \<open>\<open>PDFDocument.load\<close> rejects the bytes\<close>
  | EmbedError         \<comment> \<open>\<open>embedJpg\<close>/\<open>embedPng\<close> rejects the bytes\<close>

subsection \<open>String methods\<close>

text \<open>
  A character is a code unit below 256. The white space of \<open>trim\<close> in that range is the
  tab, the line feed, the vertical tab, the form feed, the carriage return, the space and
  the no-break space; the letters \<open>toLowerCase\<close> changes in that range are A to Z and the
  capital letters from 192 to 222 (215 is the multiplication sign), each moved by 32.
\<close>

definition isWhiteSpace :: "char \<Rightarrow> bool" where
  "isWhiteSpace c \<longleftrightarrow>
     c \<in> set [CHR 0x09, CHR 0x0A, CHR 0x0B, CHR 0x0C, CHR 0x0D, CHR '' '', CHR 0xA0]"

text \<open>\<open>String.prototype.trim\<close>: white space is removed at both ends.\<close>

definition trim :: "string \<Rightarrow> string" where
  "trim s = rev (dropWhile isWhiteSpace (rev (dropWhile isWhiteSpace s)))"

definition toLowerCaseChar :: "char \<Rightarrow> char" where
  "toLowerCaseChar c =
     (let n = (of_char c :: nat)
      in if (65 \<le> n \<and> n \<le> 90) \<or> (192 \<le> n \<and> n \<le> 222 \<and> n \<noteq> 215)
         then char_of (n + 32) else c)"

definition toLowerCase :: "string \<Rightarrow> string" where
  "toLowerCase s = map toLowerCaseChar s"

definition endsWith :: "string \<Rightarrow> string \<Rightarrow> bool" where
  "endsWith s suf \<longleftrightarrow> suffix suf s"

definition includes_str :: "string \<Rightarrow> string \<Rightarrow> bool" where
  "includes_str s sub \<longleftrightarrow> sublist sub s"

text \<open>
  \<open>s.replace(/\.[^/.]+$/, r)\<close>: the pattern matches a dot followed by one or more
  characters, none of them a dot or a slash, up to the end of the string. Such a match
  starts at the last dot of \<open>s\<close>; it exists when the run of characters after that dot
  is not empty and holds no slash. Without a match the string is returned as it is.
\<close>

definition replaceExtension :: "string \<Rightarrow> string \<Rightarrow> string" where
  "replaceExtension s r =
     (let run = takeWhile (\<lambda>c. c \<noteq> CHR ''.'' \<and> c \<noteq> CHR ''/'') (rev s);
          rest = drop (length run) (rev s)
      in if run \<noteq> [] \<and> rest \<noteq> [] \<and> hd rest = CHR ''.''
         then rev (tl rest) @ r else s)"

section \<open>The file and page objects\<close>

text \<open>
  A page of a document, as the container library (pdf-lib) presents it: an
  opaque reference to its content (\<open>None\<close> for a page created empty), its size (\<open>getSize\<close>), its \<open>Rotate\<close> entry
  (\<open>getRotation().angle\<close>; \<open>setRotation\<close> stores the angle it is given) and the images
  drawn on it by \<open>drawImage\<close>, each with its rectangle \<open>(x, y, width, height)\<close>.
\<close>

record PDFPage =
  content :: "nat option"
  page_width :: real
  page_height :: real
  Rotate :: int
  images :: "(real \<times> real \<times> real \<times> real) list"

text \<open>
  A browser \<open>File\<close>. Its bytes are opaque; what the decoders of the container library make
  of them is recorded with the file: \<open>asPdf\<close> is the page list \<open>PDFDocument.load\<close> yields
  (\<open>None\<close> when it rejects the bytes), \<open>asJpg\<close> and \<open>asPng\<close> the pixel size of the image
  \<open>embedJpg\<close> and \<open>embedPng\<close> yield (\<open>None\<close> when they reject the bytes). The field
  \<open>type\<close> of the source is \<open>ftype\<close> here.
\<close>

record File =
  name :: string
  ftype :: string
  lastModified :: nat
  asPdf :: "PDFPage list option"
  asJpg :: "(real \<times> real) option"
  asPng :: "(real \<times> real) option"

section \<open>Page configuration (PageEditorModal)\<close>

record PageConfig =
  selected :: bool
  rotation :: int

text \<open>\<open>Record<number, PageConfig>\<close>: a property that is absent reads as \<open>undefined\<close>.\<close>

type_synonym config = "nat \<rightharpoonup> PageConfig"

text \<open>
  The loop of \<open>loadPdf\<close> under the comment "Initialize config if missing": every index below
  \<open>numPages\<close> without an entry receives the default entry in a copy of the map.
\<close>

fun fillDefaults :: "nat list \<Rightarrow> config \<times> bool \<Rightarrow> config \<times> bool" where
  "fillDefaults [] (newConfig, configChanged) = (newConfig, configChanged)"
| "fillDefaults (i # is) (newConfig, configChanged) =
     (case newConfig i of
        None \<Rightarrow> fillDefaults is (newConfig(i \<mapsto> \<lparr>selected = True, rotation = 0\<rparr>), True)
      | Some _ \<Rightarrow> fillDefaults is (newConfig, configChanged))"

text \<open>
  The copy replaces the state only when it differs from the map and the map had no key
  at all (\<open>configChanged && Object.keys(config).length === 0\<close>).
\<close>

definition initConfig :: "config \<Rightarrow> nat \<Rightarrow> config" where
  "initConfig config numPages =
     (let (newConfig, configChanged) = fillDefaults [0..<numPages] (config, False)
      in if configChanged \<and> dom config = {} then newConfig else config)"

text \<open>
  \<open>toggleSelection\<close> and \<open>rotatePage\<close> read \<open>prev[index].selected\<close> and
  \<open>prev[index].rotation\<close>: with no entry at \<open>index\<close> the read throws.
\<close>

definition toggleSelection :: "config \<Rightarrow> nat \<Rightarrow> error + config" where
  "toggleSelection prev index =
     (case prev index of
        None \<Rightarrow> Inl TypeError
      | Some e \<Rightarrow> Inr (prev(index \<mapsto> e\<lparr>selected := \<not> selected e\<rparr>)))"

text \<open>The remainder operator \<open>%\<close> takes the sign of the dividend.\<close>

definition js_rem :: "int \<Rightarrow> int \<Rightarrow> int" where
  "js_rem a b = sgn a * (\<bar>a\<bar> mod \<bar>b\<bar>)"

definition rotatePage :: "config \<Rightarrow> nat \<Rightarrow> error + config" where
  "rotatePage prev index =
     (case prev index of
        None \<Rightarrow> Inl TypeError
      | Some e \<Rightarrow> Inr (prev(index \<mapsto> e\<lparr>rotation := js_rem (rotation e + 90) 360\<rparr>)))"

text \<open>
  \<open>selectAll\<close> and \<open>deselectAll\<close>: \<open>for (let i = 0; i < numPages; i++)
  newConfig[i].selected = b\<close>. The assignment throws when \<open>newConfig[i]\<close> is
  \<open>undefined\<close>, and then \<open>setConfig\<close> is not reached. The code writes into the
  entry objects of the copied map; the model returns the map with the entries updated.
\<close>

fun setAllSelected :: "bool \<Rightarrow> nat list \<Rightarrow> config \<Rightarrow> error + config" where
  "setAllSelected b [] newConfig = Inr newConfig"
| "setAllSelected b (i # is) newConfig =
     (case newConfig i of
        None \<Rightarrow> Inl TypeError
      | Some e \<Rightarrow> setAllSelected b is (newConfig(i \<mapsto> e\<lparr>selected := b\<rparr>)))"

definition selectAll :: "config \<Rightarrow> nat \<Rightarrow> error + config" where
  "selectAll config numPages = setAllSelected True [0..<numPages] config"

definition deselectAll :: "config \<Rightarrow> nat \<Rightarrow> error + config" where
  "deselectAll config numPages = setAllSelected False [0..<numPages] config"


section \<open>Merging (MergeMode)\<close>

text \<open>
  \<open>AppFile\<close>; its fields \<open>id\<close>, \<open>file\<close> and \<open>type\<close> are \<open>file_id\<close>, \<open>file'\<close> and
  \<open>type'\<close> here. An absent \<open>pageConfig\<close> is \<open>None\<close>.
\<close>

datatype fileType = pdf | word | excel

record AppFile =
  file_id :: string
  file' :: File
  type' :: fileType
  pageConfig :: "config option"

text \<open>
  The callback of \<open>copiedPages.forEach\<close>. \<open>None\<close> is the early \<open>return\<close> for an excluded
  page; otherwise the page is added to the merged document, after \<open>setRotation\<close> when the
  entry has a rotation other than 0.
\<close>

definition mergePage :: "AppFile \<Rightarrow> nat \<Rightarrow> PDFPage \<Rightarrow> PDFPage option" where
  "mergePage appFile index page =
     (case pageConfig appFile of
        None \<Rightarrow> Some page
      | Some pc \<Rightarrow>
          (case pc index of
             None \<Rightarrow> Some page
           | Some config \<Rightarrow>
               if \<not> selected config then None
               else if rotation config \<noteq> 0
                    then Some (page\<lparr>Rotate := Rotate page + rotation config\<rparr>)
                    else Some page))"

fun copiedPages_forEach :: "AppFile \<Rightarrow> nat \<Rightarrow> PDFPage list \<Rightarrow> PDFPage list \<Rightarrow> PDFPage list" where
  "copiedPages_forEach appFile index [] mergedPdf = mergedPdf"
| "copiedPages_forEach appFile index (page # rest) mergedPdf =
     copiedPages_forEach appFile (Suc index) rest
       (case mergePage appFile index page of
          None \<Rightarrow> mergedPdf
        | Some p \<Rightarrow> mergedPdf @ [p])"

text \<open>
  The loop over the files. A file whose bytes do not load throws, and no document is
  produced. The result is the page sequence of \<open>mergedPdf\<close> after the loop.
\<close>

fun mergeFiles :: "AppFile list \<Rightarrow> PDFPage list \<Rightarrow> error + PDFPage list" where
  "mergeFiles [] mergedPdf = Inr mergedPdf"
| "mergeFiles (appFile # rest) mergedPdf =
     (case asPdf (file' appFile) of
        None \<Rightarrow> Inl LoadError
      | Some copiedPages \<Rightarrow>
          mergeFiles rest (copiedPages_forEach appFile 0 copiedPages mergedPdf))"

text \<open>
  \<open>mergedPdf.save({ useObjectStreams })\<close>. The option \<open>addDefaultPage\<close> is left at its
  default, so a document to which no page was added is saved with one empty page of the
  default size, A4 (595.28 by 841.89 points).
\<close>

definition blankPage :: PDFPage where
  "blankPage = \<lparr>content = None, page_width = 59528 / 100, page_height = 84189 / 100,
                 Rotate = 0, images = []\<rparr>"

definition save :: "PDFPage list \<Rightarrow> PDFPage list" where
  "save pages = (if pages = [] then [blankPage] else pages)"

text \<open>The result is the page sequence of the saved document.\<close>

definition createMergedPdfBlob :: "AppFile list \<Rightarrow> error + PDFPage list" where
  "createMergedPdfBlob pdfFiles =
     (case mergeFiles pdfFiles [] of
        Inl e \<Rightarrow> Inl e
      | Inr mergedPdf \<Rightarrow> Inr (save mergedPdf))"

text \<open>
  The name under which the merged document is saved (\<open>runMergeProcess\<close>): the text of the
  name field trimmed, the default name when nothing is left, and \<open>.pdf\<close> appended
  unless the name, in lower case, ends with it.
\<close>

definition finalName :: "string \<Rightarrow> string" where
  "finalName mergedFileName =
     (let n0 = trim mergedFileName;
          n1 = (if n0 = [] then ''merged-document.pdf'' else n0)
      in if \<not> endsWith (toLowerCase n1) ''.pdf'' then n1 @ ''.pdf'' else n1)"

section \<open>Adding files to the merge list (MergeMode)\<close>

text \<open>
  The three converters rest on the canvas, on pdf-lib and on the office libraries. They
  are parameters of the model: each maps a file to the converted file, or to \<open>None\<close>
  when its promise rejects. \<open>makeId\<close> stands for the template string with
  \<open>Math.random()\<close> that names the \<open>k\<close>-th file of a batch.
\<close>

record Converters =
  compressImage :: "File \<Rightarrow> File option"
  convertImageToPdf :: "File \<Rightarrow> File option"
  convertOfficeToPdf :: "File \<Rightarrow> fileType \<Rightarrow> File option"
  makeId :: "nat \<Rightarrow> File \<Rightarrow> string"

datatype message = NoValidFiles | ProcessingFailed

record MergeState =
  files :: "AppFile list"
  mergedFileName :: string
  isProcessing :: bool
  error_message :: "message option"
  isCompressionEnabled :: bool

definition allowedTypes :: "string list" where
  "allowedTypes =
     [''application/pdf'', ''image/jpeg'', ''image/png'', ''application/msword'',
      ''application/vnd.openxmlformats-officedocument.wordprocessingml.document'',
      ''application/vnd.ms-excel'',
      ''application/vnd.openxmlformats-officedocument.spreadsheetml.sheet'']"

definition isValidFile :: "File \<Rightarrow> bool" where
  "isValidFile f \<longleftrightarrow>
     ftype f \<in> set allowedTypes \<or>
     endsWith (name f) ''.doc'' \<or> endsWith (name f) ''.docx'' \<or>
     endsWith (name f) ''.xls'' \<or> endsWith (name f) ''.xlsx'' \<or>
     endsWith (name f) ''.pdf'' \<or> endsWith (name f) ''.jpg'' \<or>
     endsWith (name f) ''.jpeg'' \<or> endsWith (name f) ''.png''"

text \<open>
  The task of one file (the callback of \<open>validFiles.map\<close>). A failed compression is
  caught and the original image is converted; a failed conversion rejects the task.
\<close>

definition processFile :: "Converters \<Rightarrow> bool \<Rightarrow> nat \<Rightarrow> File \<Rightarrow> AppFile option" where
  "processFile env compression k f =
     (if ftype f = ''image/jpeg'' \<or> ftype f = ''image/png'' then
        (let imageToConvert =
               (if compression
                then (case compressImage env f of None \<Rightarrow> f | Some c \<Rightarrow> c)
                else f)
         in case convertImageToPdf env imageToConvert of
              None \<Rightarrow> None
            | Some fileToProcess \<Rightarrow>
                Some \<lparr>file_id = makeId env k f, file' = fileToProcess, type' = pdf,
                      pageConfig = None\<rparr>)
      else if includes_str (ftype f) ''word'' \<or> endsWith (name f) ''.doc''
              \<or> endsWith (name f) ''.docx'' then
        (case convertOfficeToPdf env f word of
           None \<Rightarrow> None
         | Some fileToProcess \<Rightarrow>
             Some \<lparr>file_id = makeId env k f, file' = fileToProcess, type' = word,
                   pageConfig = None\<rparr>)
      else if includes_str (ftype f) ''excel'' \<or> includes_str (ftype f) ''spreadsheet''
              \<or> endsWith (name f) ''.xls'' \<or> endsWith (name f) ''.xlsx'' then
        (case convertOfficeToPdf env f excel of
           None \<Rightarrow> None
         | Some fileToProcess \<Rightarrow>
             Some \<lparr>file_id = makeId env k f, file' = fileToProcess, type' = excel,
                   pageConfig = None\<rparr>)
      else Some \<lparr>file_id = makeId env k f, file' = f, type' = pdf, pageConfig = None\<rparr>)"

text \<open>
  \<open>Promise.all\<close> over tasks that run interleaved. \<open>outcomes ! i\<close> is what task \<open>i\<close>
  settles with (\<open>None\<close>: it rejects) and \<open>order\<close> lists the tasks in the order in which
  they settle. A value is stored in the slot of its task; the first rejection rejects the
  whole; without a rejection the whole is fulfilled once every slot is filled, with the
  slots in index order, and stays pending otherwise.
\<close>

datatype 'a settled = Fulfilled 'a | Rejected | Pending

fun promiseAll_run :: "nat list \<Rightarrow> 'a option list \<Rightarrow> 'a option list \<Rightarrow> 'a list settled" where
  "promiseAll_run [] outcomes slots =
     (case those slots of None \<Rightarrow> Pending | Some values \<Rightarrow> Fulfilled values)"
| "promiseAll_run (i # order) outcomes slots =
     (if length outcomes \<le> i then promiseAll_run order outcomes slots
      else case outcomes ! i of
             None \<Rightarrow> Rejected
           | Some v \<Rightarrow> promiseAll_run order outcomes (slots[i := Some v]))"

definition promiseAll :: "nat list \<Rightarrow> 'a option list \<Rightarrow> 'a list settled" where
  "promiseAll order outcomes = promiseAll_run order outcomes (replicate (length outcomes) None)"

text \<open>
  \<open>processAndAddFiles\<close>: the files outside the allow-list are dropped, one task is made
  for each file left, and the results are appended to the list in one state update.
  A rejection only sets the error message. The result is \<open>Pending\<close> when the \<open>await\<close>
  never returns.
\<close>

definition processAndAddFiles ::
    "Converters \<Rightarrow> nat list \<Rightarrow> MergeState \<Rightarrow> File list \<Rightarrow> MergeState settled" where
  "processAndAddFiles env order st filesToAdd =
     (let st1 = st\<lparr>isProcessing := True, error_message := None\<rparr>;
          validFiles = filter isValidFile filesToAdd
      in if validFiles = []
         then Fulfilled (st1\<lparr>error_message := Some NoValidFiles, isProcessing := False\<rparr>)
         else
           (case promiseAll order
                   (map (\<lambda>(k, f). processFile env (isCompressionEnabled st) k f)
                        (enumerate 0 validFiles)) of
              Pending \<Rightarrow> Pending
            | Rejected \<Rightarrow>
                Fulfilled (st1\<lparr>error_message := Some ProcessingFailed, isProcessing := False\<rparr>)
            | Fulfilled newFiles \<Rightarrow>
                Fulfilled (st1\<lparr>files := files st1 @ newFiles, isProcessing := False\<rparr>)))"

section \<open>Placing a signature (SignMode)\<close>

record SignFile =
  sign_id :: string
  sign_file :: File

datatype Corner = TL | TR | BL | BR

datatype PagesToSign = ALL_pages | FIRST_page | LAST_page

record DOMRect =
  rect_left :: real
  rect_top :: real
  rect_width :: real
  rect_height :: real

text \<open>Sizes are pairs \<open>(width, height)\<close>, the drag position is the pair \<open>(x, y)\<close>.\<close>

record SignState =
  pdfs :: "SignFile list"
  signatureImage :: "File option"
  sigImageDims :: "(real \<times> real) option"
  useVisualPlacement :: bool
  position :: Corner
  pagesToSign :: PagesToSign
  signatureScale :: real
  pdfPageDimensions :: "(real \<times> real) option"
  canvasDims :: "(real \<times> real) option"
  dragPos :: "real \<times> real"
  isDragging :: bool

text \<open>
  The preview (\<open>renderPage\<close>): the first page of the first document is drawn at the scale
  that fits the container. \<open>unscaledViewport\<close> is the size of that page, \<open>clientWidth\<close>
  the width of the container; a width of 0 counts as 400.
\<close>

definition renderPage :: "SignState \<Rightarrow> real \<Rightarrow> real \<times> real \<Rightarrow> SignState" where
  "renderPage st clientWidth unscaledViewport =
     (let containerWidth = (if clientWidth = 0 then 400 else clientWidth);
          scale = containerWidth / fst unscaledViewport
      in st\<lparr>pdfPageDimensions := Some unscaledViewport,
             canvasDims := Some (scale * fst unscaledViewport, scale * snd unscaledViewport)\<rparr>)"

definition visualWidth :: "SignState \<Rightarrow> real" where
  "visualWidth st =
     (case sigImageDims st of
        None \<Rightarrow> 150
      | Some sig \<Rightarrow>
          (case pdfPageDimensions st of
             None \<Rightarrow> 150
           | Some pg \<Rightarrow>
               (case canvasDims st of
                  None \<Rightarrow> 150
                | Some cv \<Rightarrow> fst sig * signatureScale st * (fst cv / fst pg))))"

text \<open>
  \<open>handleMouseMove\<close>, for a pointer at \<open>(clientX, clientY)\<close>; \<open>canvasRect\<close> is the
  bounding rectangle of the canvas, \<open>None\<close> when the canvas is not mounted.
\<close>

definition handleMouseMove :: "SignState \<Rightarrow> DOMRect option \<Rightarrow> real \<Rightarrow> real \<Rightarrow> SignState" where
  "handleMouseMove st canvasRect clientX clientY =
     (if \<not> isDragging st then st
      else case canvasRect of
        None \<Rightarrow> st
      | Some rect \<Rightarrow>
          (case sigImageDims st of
             None \<Rightarrow> st
           | Some sig \<Rightarrow>
               (let visualHeight = visualWidth st * (snd sig / fst sig);
                    x0 = clientX - rect_left rect - visualWidth st / 2;
                    y0 = clientY - rect_top rect - visualHeight / 2;
                    x1 = (if x0 < 0 then 0 else x0);
                    y1 = (if y0 < 0 then 0 else y0);
                    x2 = (if x1 + visualWidth st > rect_width rect
                          then rect_width rect - visualWidth st else x1);
                    y2 = (if y1 + visualHeight > rect_height rect
                          then rect_height rect - visualHeight else y1)
                in st\<lparr>dragPos := (x2, y2)\<rparr>)))"

text \<open>\<open>embeddedImage.scale(factor)\<close>: both sides of the image times the factor.\<close>

definition scale :: "real \<times> real \<Rightarrow> real \<Rightarrow> real \<times> real" where
  "scale dims factor = (fst dims * factor, snd dims * factor)"

text \<open>
  The callback of \<open>pagesToProcess.forEach\<close>: the rectangle of the signature on one page,
  and the page with the image drawn.
\<close>

definition placement :: "SignState \<Rightarrow> real \<times> real \<Rightarrow> PDFPage \<Rightarrow> real \<times> real" where
  "placement st signatureDims page =
     (let width = page_width page; height = page_height page; padding = 20
      in case (if useVisualPlacement st then canvasDims st else None) of
           Some cv \<Rightarrow>
             (let rectPercentageX = fst (dragPos st) / fst cv;
                  rectPercentageY = snd (dragPos st) / snd cv
              in (rectPercentageX * width,
                  height - (rectPercentageY * height) - snd signatureDims))
         | None \<Rightarrow>
             (case position st of
                TL \<Rightarrow> (padding, height - snd signatureDims - padding)
              | TR \<Rightarrow> (width - fst signatureDims - padding,
                        height - snd signatureDims - padding)
              | BL \<Rightarrow> (padding, padding)
              | BR \<Rightarrow> (width - fst signatureDims - padding, padding)))"

definition drawSignature :: "SignState \<Rightarrow> real \<times> real \<Rightarrow> PDFPage \<Rightarrow> PDFPage" where
  "drawSignature st signatureDims page =
     page\<lparr>images := images page @
        [(fst (placement st signatureDims page), snd (placement st signatureDims page),
          fst signatureDims, snd signatureDims)]\<rparr>"

definition stampPages :: "SignState \<Rightarrow> real \<times> real \<Rightarrow> PDFPage list \<Rightarrow> PDFPage list" where
  "stampPages st signatureDims pages =
     (case pagesToSign st of
        ALL_pages \<Rightarrow> map (drawSignature st signatureDims) pages
      | FIRST_page \<Rightarrow>
          (case pages of [] \<Rightarrow> [] | p # ps \<Rightarrow> drawSignature st signatureDims p # ps)
      | LAST_page \<Rightarrow>
          (if pages = [] then []
           else butlast pages @ [drawSignature st signatureDims (last pages)]))"

text \<open>One pass of the loop over \<open>pdfs\<close>: the signed document and its name.\<close>

definition signedName :: "string \<Rightarrow> string" where
  "signedName n = replaceExtension n [] @ ''_firmado.pdf''"

definition signPdf :: "SignState \<Rightarrow> File \<Rightarrow> SignFile \<Rightarrow> error + string \<times> PDFPage list" where
  "signPdf st sig pdfItem =
     (case asPdf (sign_file pdfItem) of
        None \<Rightarrow> Inl LoadError
      | Some pages \<Rightarrow>
          (case (if ftype sig = ''image/jpeg'' then asJpg sig else asPng sig) of
             None \<Rightarrow> Inl EmbedError
           | Some dims \<Rightarrow>
               Inr (signedName (name (sign_file pdfItem)),
                    stampPages st (scale dims (signatureScale st)) pages)))"

fun signLoop ::
    "SignState \<Rightarrow> File \<Rightarrow> SignFile list \<Rightarrow> (string \<times> PDFPage list) list
      \<Rightarrow> error + (string \<times> PDFPage list) list" where
  "signLoop st sig [] signedPdfs = Inr signedPdfs"
| "signLoop st sig (pdfItem # rest) signedPdfs =
     (case signPdf st sig pdfItem of
        Inl e \<Rightarrow> Inl e
      | Inr sp \<Rightarrow> signLoop st sig rest (signedPdfs @ [sp]))"

text \<open>
  The archive object of the zip library keeps its entries by name: \<open>zip.file(name, data)\<close>
  adds an entry, and replaces the data of the entry that already has this name.
\<close>

definition zip_file :: "(string \<times> 'b) list \<Rightarrow> string \<Rightarrow> 'b \<Rightarrow> (string \<times> 'b) list" where
  "zip_file archive n data =
     (if n \<in> set (map fst archive)
      then map (\<lambda>entry. if fst entry = n then (n, data) else entry) archive
      else archive @ [(n, data)])"

datatype download =
    Download string "PDFPage list"
  | DownloadZip string "(string \<times> PDFPage list) list"

text \<open>
  \<open>handleSign\<close>: nothing happens without a document or without a signature; an exception
  leaves the state as it is and produces no download.
\<close>

definition handleSign :: "SignState \<Rightarrow> error + download option \<times> SignState" where
  "handleSign st =
     (if pdfs st = [] then Inr (None, st)
      else case signatureImage st of
        None \<Rightarrow> Inr (None, st)
      | Some sig \<Rightarrow>
          (case signLoop st sig (pdfs st) [] of
             Inl e \<Rightarrow> Inl e
           | Inr signedPdfs \<Rightarrow>
               Inr (Some (case signedPdfs of
                            [sp] \<Rightarrow> Download (fst sp) (snd sp)
                          | _ \<Rightarrow> DownloadZip ''documentos_firmados.zip''
                                   (foldl (\<lambda>archive sp. zip_file archive (fst sp) (snd sp)) [] signedPdfs)),
                    st\<lparr>pdfs := [], signatureImage := None, sigImageDims := None\<rparr>)))"

section \<open>Notions used in the statements\<close>

text \<open>The name after the first two statements of the rule: trimmed, or the default.\<close>

definition trimmedOrDefault :: "string \<Rightarrow> string" where
  "trimmedOrDefault s = (if trim s = [] then ''merged-document.pdf'' else trim s)"

text \<open>
  The configuration an index resolves to: its entry, or the default when the file has
  no map or the map has no entry for the index.
\<close>

definition resolveConfig :: "AppFile \<Rightarrow> nat \<Rightarrow> PageConfig" where
  "resolveConfig appFile index =
     (case pageConfig appFile of
        None \<Rightarrow> \<lparr>selected = True, rotation = 0\<rparr>
      | Some pc \<Rightarrow>
          (case pc index of None \<Rightarrow> \<lparr>selected = True, rotation = 0\<rparr> | Some e \<Rightarrow> e))"

definition loadedPages :: "AppFile \<Rightarrow> PDFPage list" where
  "loadedPages appFile = (case asPdf (file' appFile) of None \<Rightarrow> [] | Some ps \<Rightarrow> ps)"

text \<open>The indices of a document whose configuration resolves to selected, ascending.\<close>

definition selectedIndices :: "AppFile \<Rightarrow> nat list" where
  "selectedIndices appFile =
     filter (\<lambda>i. selected (resolveConfig appFile i)) [0..<length (loadedPages appFile)]"

text \<open>Page \<open>i\<close> of a document with the configured rotation added to its own.\<close>

definition outputPage :: "AppFile \<Rightarrow> nat \<Rightarrow> PDFPage" where
  "outputPage appFile i =
     (loadedPages appFile ! i)
       \<lparr>Rotate := Rotate (loadedPages appFile ! i) + rotation (resolveConfig appFile i)\<rparr>"

text \<open>A page without regard to its rotation.\<close>

definition unrotated :: "PDFPage \<Rightarrow> PDFPage" where
  "unrotated p = p\<lparr>Rotate := 0\<rparr>"

text \<open>The composed rotation in the words of the specification.\<close>

definition composedRotation :: "int \<Rightarrow> int \<Rightarrow> int" where
  "composedRotation intrinsic configured = (intrinsic + configured) mod 360"

text \<open>\<open>rotatePage\<close> applied \<open>n\<close> times to the same index.\<close>

fun rotateTimes :: "nat \<Rightarrow> config \<Rightarrow> nat \<Rightarrow> error + config" where
  "rotateTimes 0 prev index = Inr prev"
| "rotateTimes (Suc n) prev index =
     (case rotatePage prev index of Inl err \<Rightarrow> Inl err | Inr c \<Rightarrow> rotateTimes n c index)"

text \<open>
  Page \<open>i\<close> of a document deselected: its entry has \<open>selected = False\<close>, the other
  entries are kept. This is what \<open>toggleSelection\<close> does to a selected entry.
\<close>

definition deselect :: "AppFile \<Rightarrow> nat \<Rightarrow> int \<Rightarrow> AppFile" where
  "deselect d i r =
     d\<lparr>pageConfig :=
          Some ((case pageConfig d of None \<Rightarrow> Map.empty | Some pc \<Rightarrow> pc)
                  (i \<mapsto> \<lparr>selected = False, rotation = r\<rparr>))\<rparr>"

text \<open>
  A rectangle with the given origin and size is centred on a page when its centre is the
  centre of the page.
\<close>

definition centred :: "PDFPage \<Rightarrow> real \<times> real \<Rightarrow> real \<times> real \<Rightarrow> bool" where
  "centred page origin dims \<longleftrightarrow>
     fst origin + fst dims / 2 = page_width page / 2 \<and>
     snd origin + snd dims / 2 = page_height page / 2"

text \<open>The two bounds checks of \<open>handleMouseMove\<close> on one axis.\<close>

definition clampAxis :: "real \<Rightarrow> real \<Rightarrow> real \<Rightarrow> real" where
  "clampAxis p extent bound =
     (if (if p < 0 then 0 else p) + extent > bound then bound - extent
      else (if p < 0 then 0 else p))"

text \<open>The tasks of a batch, in submission order: \<open>None\<close> for a task that rejects.\<close>

definition tasks :: "Converters \<Rightarrow> MergeState \<Rightarrow> File list \<Rightarrow> AppFile option list" where
  "tasks env st filesToAdd =
     map (\<lambda>(k, f). processFile env (isCompressionEnabled st) k f)
       (enumerate 0 (filter isValidFile filesToAdd))"

section \<open>Example inputs\<close>

text \<open>Example documents.\<close>

definition exPage :: "nat \<Rightarrow> int \<Rightarrow> PDFPage" where
  "exPage c r = \<lparr>content = Some c, page_width = 595, page_height = 842, Rotate = r, images = []\<rparr>"

definition exFile :: "string \<Rightarrow> PDFPage list \<Rightarrow> File" where
  "exFile n ps = \<lparr>name = n, ftype = ''application/pdf'', lastModified = 0,
                   asPdf = Some ps, asJpg = None, asPng = None\<rparr>"

definition exAppFile :: "string \<Rightarrow> PDFPage list \<Rightarrow> config option \<Rightarrow> AppFile" where
  "exAppFile n ps pc = \<lparr>file_id = n, file' = exFile n ps, type' = pdf, pageConfig = pc\<rparr>"

definition exImageDoc :: AppFile where
  "exImageDoc = exAppFile ''photo.pdf'' [exPage 1 0] None"

definition exTwoPages :: AppFile where
  "exTwoPages = exAppFile ''report.pdf'' [exPage 2 0, exPage 3 0] None"

definition exSideways :: AppFile where
  "exSideways = exAppFile ''scan.pdf'' [exPage 1 270]
     (Some (Map.empty(0 \<mapsto> \<lparr>selected = True, rotation = 180\<rparr>)))"

definition exThreePages :: AppFile where
  "exThreePages = exAppFile ''book.pdf'' [exPage 4 0, exPage 5 0, exPage 6 0] None"


text \<open>
  An example: a page of 600 by 800 points previewed at half size, and a signature image
  of 200 by 100 pixels at scale 0.5.
\<close>

definition exSignature :: File where
  "exSignature = \<lparr>name = ''firma.png'', ftype = ''image/png'', lastModified = 0,
                   asPdf = None, asJpg = None, asPng = Some (200, 100)\<rparr>"

definition exSignState :: SignState where
  "exSignState =
     \<lparr>pdfs = [], signatureImage = Some exSignature, sigImageDims = Some (200, 100),
      useVisualPlacement = True, position = BR, pagesToSign = ALL_pages,
      signatureScale = 1/2, pdfPageDimensions = Some (600, 800), canvasDims = Some (300, 400),
      dragPos = (50, 50), isDragging = True\<rparr>"

definition exRect :: DOMRect where
  "exRect = \<lparr>rect_left = 0, rect_top = 0, rect_width = 300, rect_height = 400\<rparr>"

definition exSizedPage :: "real \<Rightarrow> real \<Rightarrow> PDFPage" where
  "exSizedPage w h = \<lparr>content = Some 0, page_width = w, page_height = h, Rotate = 0, images = []\<rparr>"

definition exTarget :: SignFile where
  "exTarget = \<lparr>sign_id = ''1'', sign_file = exFile ''contrato.pdf'' [exSizedPage 600 800]\<rparr>"

text \<open>Two documents to sign that have the same name.\<close>

definition exSameNames :: SignState where
  "exSameNames = exSignState\<lparr>pdfs :=
     [\<lparr>sign_id = ''1'', sign_file = exFile ''a.pdf'' [exSizedPage 600 800]\<rparr>,
      \<lparr>sign_id = ''2'', sign_file = exFile ''a.pdf'' [exSizedPage 300 400]\<rparr>]\<rparr>"

text \<open>
  An example: converters that always fail, two documents that need no conversion and a
  photo that does; the second task settles first.
\<close>

definition exConverters :: Converters where
  "exConverters = \<lparr>compressImage = (\<lambda>f. None), convertImageToPdf = (\<lambda>f. None),
                    convertOfficeToPdf = (\<lambda>f t. None), makeId = (\<lambda>k f. name f)\<rparr>"

definition exPhoto :: File where
  "exPhoto = \<lparr>name = ''foto.jpg'', ftype = ''image/jpeg'', lastModified = 0,
               asPdf = None, asJpg = None, asPng = None\<rparr>"

definition exMergeState :: MergeState where
  "exMergeState = \<lparr>files = [], mergedFileName = ''merged-document.pdf'', isProcessing = False,
                    error_message = None, isCompressionEnabled = True\<rparr>"

definition exAdded :: "string \<Rightarrow> PDFPage list \<Rightarrow> AppFile" where
  "exAdded n ps = \<lparr>file_id = n, file' = exFile n ps, type' = pdf, pageConfig = None\<rparr>"

section \<open>Properties of the file name rule\<close>

lemma trim_fixed:
  assumes "t \<noteq> []" "\<not> isWhiteSpace (hd t)" "\<not> isWhiteSpace (last t)"
  shows "trim t = t"
proof -
  have a: "dropWhile isWhiteSpace t = t" using assms by (cases t) auto
  obtain y ys where r: "rev t = y # ys" using assms(1) by (cases "rev t") auto
  have "hd (rev t) = last t" using assms(1) by (simp add: hd_rev)
  then have "y = last t" using r by simp
  then have ny: "\<not> isWhiteSpace y" using assms(3) by simp
  have "dropWhile isWhiteSpace (y # ys) = y # ys" using ny by simp
  then have b: "dropWhile isWhiteSpace (rev t) = rev t" by (simp only: r)
  show ?thesis by (simp add: trim_def a b)
qed

lemma trim_ends:
  assumes "trim s \<noteq> []"
  shows "\<not> isWhiteSpace (hd (trim s)) \<and> \<not> isWhiteSpace (last (trim s))"
proof -
  let ?u = "dropWhile isWhiteSpace s"
  let ?v = "dropWhile isWhiteSpace (rev ?u)"
  have v: "?v \<noteq> []" using assms by (simp add: trim_def)
  then have hv: "\<not> isWhiteSpace (hd ?v)" by (rule hd_dropWhile)
  have l: "last (trim s) = hd ?v" using v by (simp add: trim_def last_rev)
  have "rev ?u \<noteq> []" using v by (metis dropWhile.simps(1))
  then have u: "?u \<noteq> []" by simp
  then have hu: "\<not> isWhiteSpace (hd ?u)" by (rule hd_dropWhile)
  obtain ws where "rev ?u = ws @ ?v" by (metis takeWhile_dropWhile_id)
  then have "?u = rev ?v @ rev ws" by (metis rev_append rev_rev_ident)
  then have "hd ?u = hd (rev ?v)" using v by (metis hd_append2 rev_is_Nil_conv)
  then have "\<not> isWhiteSpace (hd (trim s))" using hu by (simp add: trim_def)
  then show ?thesis using hv l by simp
qed

lemma toLowerCase_append: "toLowerCase (a @ b) = toLowerCase a @ toLowerCase b"
  by (simp add: toLowerCase_def)

lemma toLowerCase_pdf: "toLowerCase ''.pdf'' = ''.pdf''"
  by code_simp

lemma default_ends:
  "\<not> isWhiteSpace (hd ''merged-document.pdf'') \<and> \<not> isWhiteSpace (last ''merged-document.pdf'')"
  by code_simp

lemma f_not_ws: "\<not> isWhiteSpace (CHR ''f'')"
  by code_simp

lemma trimmedOrDefault_props:
  "trimmedOrDefault s \<noteq> [] \<and> \<not> isWhiteSpace (hd (trimmedOrDefault s))
     \<and> \<not> isWhiteSpace (last (trimmedOrDefault s))"
  using trim_ends [of s] default_ends by (auto simp: trimmedOrDefault_def)

lemma finalName_cases:
  "finalName s =
     (if endsWith (toLowerCase (trimmedOrDefault s)) ''.pdf''
      then trimmedOrDefault s else trimmedOrDefault s @ ''.pdf'')"
  by (simp add: finalName_def trimmedOrDefault_def Let_def)

lemma finalName_fixed:
  assumes "t \<noteq> []" "\<not> isWhiteSpace (hd t)" "\<not> isWhiteSpace (last t)"
    and "endsWith (toLowerCase t) ''.pdf''"
  shows "finalName t = t"
proof -
  have "trim t = t" using assms(1-3) by (rule trim_fixed)
  then have "trimmedOrDefault t = t" using assms(1) by (simp add: trimmedOrDefault_def)
  then show ?thesis using assms(4) by (simp add: finalName_cases)
qed

lemma finalName_ends: "endsWith (toLowerCase (finalName s)) ''.pdf''"
  by (simp add: finalName_cases toLowerCase_append toLowerCase_pdf endsWith_def suffix_def)

lemma finalName_trimmed:
  "finalName s \<noteq> [] \<and> \<not> isWhiteSpace (hd (finalName s)) \<and> \<not> isWhiteSpace (last (finalName s))"
  using trimmedOrDefault_props [of s] f_not_ws by (simp add: finalName_cases)

text \<open>
  C8: the file name rule of the merge (trim, default name when empty, \<open>.pdf\<close> appended
  unless the name already ends with it, compared in lower case) is idempotent, and its
  result always ends with the extension, compared in lower case.
\<close>

theorem finalName_idempotent:
  "finalName (finalName s) = finalName s \<and> endsWith (toLowerCase (finalName s)) ''.pdf''"
  using finalName_fixed [of "finalName s"] finalName_trimmed [of s] finalName_ends [of s]
  by blast

section \<open>Properties of the merge\<close>

lemma ex_loaded:
  "loadedPages (exAppFile n ps pc) = ps" "asPdf (file' (exAppFile n ps pc)) = Some ps"
  by (simp_all add: loadedPages_def exAppFile_def exFile_def)

lemma ex_resolve_None:
  "resolveConfig (exAppFile n ps None) i = \<lparr>selected = True, rotation = 0\<rparr>"
  by (simp add: resolveConfig_def exAppFile_def)

lemma mergePage_resolve:
  "mergePage f i p =
     (if selected (resolveConfig f i)
      then Some (p\<lparr>Rotate := Rotate p + rotation (resolveConfig f i)\<rparr>) else None)"
  by (simp add: mergePage_def resolveConfig_def split: option.splits)

lemma forEach_enumerate:
  "copiedPages_forEach f i ps acc =
     acc @ List.map_filter (\<lambda>(j, p). mergePage f j p) (List.enumerate i ps)"
  by (induction ps arbitrary: i acc) (simp_all split: option.splits)

lemma forEach_indices:
  "copiedPages_forEach f 0 ps acc =
     acc @ map (\<lambda>j. (ps ! j)\<lparr>Rotate := Rotate (ps ! j) + rotation (resolveConfig f j)\<rparr>)
             (filter (\<lambda>j. selected (resolveConfig f j)) [0..<length ps])"
proof -
  have e: "List.enumerate 0 ps = map (\<lambda>j. (j, ps ! j)) [0..<length ps]"
    by (rule nth_equalityI) (simp_all add: nth_enumerate_eq)
  show ?thesis
    by (simp add: forEach_enumerate e List.map_filter_def filter_map o_def mergePage_resolve)
qed

lemma mergeFiles_loaded:
  assumes "\<forall>f \<in> set fs. asPdf (file' f) \<noteq> None"
  shows "mergeFiles fs acc =
           Inr (acc @ concat (map (\<lambda>f. map (outputPage f) (selectedIndices f)) fs))"
  using assms
proof (induction fs arbitrary: acc)
  case Nil
  then show ?case by simp
next
  case (Cons f fs)
  then obtain ps where ps: "asPdf (file' f) = Some ps" by auto
  have "map (outputPage f) (selectedIndices f) =
      map (\<lambda>j. (ps ! j)\<lparr>Rotate := Rotate (ps ! j) + rotation (resolveConfig f j)\<rparr>)
             (filter (\<lambda>j. selected (resolveConfig f j)) [0..<length ps])"
    by (simp add: outputPage_def selectedIndices_def loadedPages_def ps)
  then show ?case using Cons ps by (simp add: forEach_indices)
qed

lemma mergeFiles_unreadable:
  assumes "\<exists>f \<in> set fs. asPdf (file' f) = None"
  shows "mergeFiles fs acc = Inl LoadError"
  using assms by (induction fs arbitrary: acc) (auto split: option.splits)

lemma mergeFiles_loaded_Nil:
  assumes "\<forall>f \<in> set fs. asPdf (file' f) \<noteq> None"
  shows "mergeFiles fs [] =
           Inr (concat (map (\<lambda>f. map (outputPage f) (selectedIndices f)) fs))"
  using mergeFiles_loaded [OF assms, of "[]"] by simp

lemma createMergedPdfBlob_loaded:
  assumes "\<forall>f \<in> set fs. asPdf (file' f) \<noteq> None"
  shows "createMergedPdfBlob fs =
           Inr (save (concat (map (\<lambda>f. map (outputPage f) (selectedIndices f)) fs)))"
  by (simp add: createMergedPdfBlob_def mergeFiles_loaded_Nil [OF assms])

lemma createMergedPdfBlob_unreadable:
  assumes "\<exists>f \<in> set fs. asPdf (file' f) = None"
  shows "createMergedPdfBlob fs = Inl LoadError"
  by (simp add: createMergedPdfBlob_def mergeFiles_unreadable [OF assms])

lemma save_Nil: "save [] = [blankPage]"
  by (simp add: save_def)

lemma save_nonempty: "pages \<noteq> [] \<Longrightarrow> save pages = pages"
  by (simp add: save_def)

lemma unrotated_outputPage: "unrotated (outputPage f i) = unrotated (loadedPages f ! i)"
  by (simp add: unrotated_def outputPage_def)

lemma all_default:
  assumes "\<forall>i < length (loadedPages f). resolveConfig f i = \<lparr>selected = True, rotation = 0\<rparr>"
  shows "map (outputPage f) (selectedIndices f) = loadedPages f"
proof -
  have s: "selectedIndices f = [0..<length (loadedPages f)]"
    using assms by (simp add: selectedIndices_def)
  have "map (outputPage f) [0..<length (loadedPages f)] =
          map ((!) (loadedPages f)) [0..<length (loadedPages f)]"
    using assms by (simp add: outputPage_def)
  then show ?thesis by (simp add: s map_nth)
qed

text \<open>
  C1 (amended): when every document of the list loads, the merge returns a document. If
  at least one page resolves to selected (an index without an entry counting as selected),
  its pages are the selected pages of each document in ascending index order, the
  documents in list order (the input pages up to their rotation), and their number is the
  sum over the documents of the number of selected indices. If no page is selected the
  document is one blank page. With every page selected, every rotation 0 and at least one
  input page, the output is the concatenation of the input page lists, and its length the
  sum of the page counts.
\<close>

theorem createMergedPdfBlob_order_and_count:
  assumes "\<forall>f \<in> set pdfFiles. asPdf (file' f) \<noteq> None"
  shows "\<exists>out. createMergedPdfBlob pdfFiles = Inr out
      \<and> (if sum_list (map (\<lambda>f. length (selectedIndices f)) pdfFiles) = 0
          then out = [blankPage]
          else map unrotated out =
                 concat (map (\<lambda>f. map (\<lambda>i. unrotated (loadedPages f ! i)) (selectedIndices f))
                           pdfFiles)
               \<and> length out = sum_list (map (\<lambda>f. length (selectedIndices f)) pdfFiles))
      \<and> ((\<forall>f \<in> set pdfFiles. \<forall>i < length (loadedPages f).
              resolveConfig f i = \<lparr>selected = True, rotation = 0\<rparr>)
           \<and> 0 < sum_list (map (\<lambda>f. length (loadedPages f)) pdfFiles) \<longrightarrow>
            out = concat (map loadedPages pdfFiles)
            \<and> length out = sum_list (map (\<lambda>f. length (loadedPages f)) pdfFiles))"
proof -
  let ?m = "concat (map (\<lambda>f. map (outputPage f) (selectedIndices f)) pdfFiles)"
  let ?n = "sum_list (map (\<lambda>f. length (selectedIndices f)) pdfFiles)"
  have r: "createMergedPdfBlob pdfFiles = Inr (save ?m)"
    using assms by (rule createMergedPdfBlob_loaded)
  have o: "map unrotated ?m =
      concat (map (\<lambda>f. map (\<lambda>i. unrotated (loadedPages f ! i)) (selectedIndices f)) pdfFiles)"
    by (simp add: map_concat o_def unrotated_outputPage)
  have l: "length ?m = ?n"
    by (simp add: length_concat o_def)
  have c: "if ?n = 0 then save ?m = [blankPage]
           else map unrotated (save ?m) =
                 concat (map (\<lambda>f. map (\<lambda>i. unrotated (loadedPages f ! i)) (selectedIndices f))
                           pdfFiles)
               \<and> length (save ?m) = ?n"
  proof (cases "?n = 0")
    case True
    then have "?m = []" using l by simp
    then have "save ?m = [blankPage]" by (simp only: save_Nil)
    then show ?thesis unfolding if_P [OF True] .
  next
    case False
    then have "?m \<noteq> []" using l by auto
    then have sv: "save ?m = ?m" by (rule save_nonempty)
    show ?thesis unfolding if_not_P [OF False] sv using o l by (rule conjI)
  qed
  have d: "save ?m = concat (map loadedPages pdfFiles)
            \<and> length (save ?m) = sum_list (map (\<lambda>f. length (loadedPages f)) pdfFiles)"
    if a: "(\<forall>f \<in> set pdfFiles. \<forall>i < length (loadedPages f).
              resolveConfig f i = \<lparr>selected = True, rotation = 0\<rparr>)
           \<and> 0 < sum_list (map (\<lambda>f. length (loadedPages f)) pdfFiles)"
  proof -
    have "map (\<lambda>f. map (outputPage f) (selectedIndices f)) pdfFiles = map loadedPages pdfFiles"
    proof (rule map_cong [OF refl])
      fix f assume "f \<in> set pdfFiles"
      then show "map (outputPage f) (selectedIndices f) = loadedPages f"
        using a by (intro all_default) blast
    qed
    then have e: "?m = concat (map loadedPages pdfFiles)" by (rule arg_cong)
    have n: "length (concat (map loadedPages pdfFiles)) =
             sum_list (map (\<lambda>f. length (loadedPages f)) pdfFiles)"
      by (simp add: length_concat o_def)
    have "0 < length (concat (map loadedPages pdfFiles))"
      using a [THEN conjunct2] by (simp only: n)
    then have "concat (map loadedPages pdfFiles) \<noteq> []"
      by (rule length_greater_0_conv [THEN iffD1])
    then have "save (concat (map loadedPages pdfFiles)) = concat (map loadedPages pdfFiles)"
      by (rule save_nonempty)
    then show ?thesis unfolding e using n by simp
  qed
  show ?thesis
    by (rule exI [of _ "save ?m"]) (intro conjI impI r c; elim d [THEN conjunct1] d [THEN conjunct2])
qed

text \<open>
  A document of one page, that page deselected: no page is selected, the sum of the
  selected pages is 0, and the merge returns a document of one blank page.
\<close>

theorem createMergedPdfBlob_order_and_count_counterexample:
  "createMergedPdfBlob [deselect exImageDoc 0 0] = Inr [blankPage]
   \<and> length (selectedIndices (deselect exImageDoc 0 0)) = 0
   \<and> length [blankPage] \<noteq> length (selectedIndices (deselect exImageDoc 0 0))"
  by (simp add: createMergedPdfBlob_def deselect_def exImageDoc_def exAppFile_def exFile_def
      mergePage_def save_def selectedIndices_def loadedPages_def resolveConfig_def)

theorem createMergedPdfBlob_order_and_count_witness:
  "createMergedPdfBlob [exImageDoc, exTwoPages] = Inr [exPage 1 0, exPage 2 0, exPage 3 0]"
proof -
  have h: "\<forall>f \<in> set [exImageDoc, exTwoPages]. asPdf (file' f) \<noteq> None"
    by (simp add: exImageDoc_def exTwoPages_def ex_loaded)
  have d: "(\<forall>f \<in> set [exImageDoc, exTwoPages]. \<forall>i < length (loadedPages f).
             resolveConfig f i = \<lparr>selected = True, rotation = 0\<rparr>)
           \<and> 0 < sum_list (map (\<lambda>f. length (loadedPages f)) [exImageDoc, exTwoPages])"
    by (simp add: exImageDoc_def exTwoPages_def ex_resolve_None ex_loaded)
  from createMergedPdfBlob_order_and_count [OF h] d
  obtain out where "createMergedPdfBlob [exImageDoc, exTwoPages] = Inr out"
    and "out = concat (map loadedPages [exImageDoc, exTwoPages])"
    by blast
  then show ?thesis by (simp add: exImageDoc_def exTwoPages_def ex_loaded)
qed

section \<open>Properties of the rotation\<close>

lemma js_rem_nonneg: "0 \<le> a \<Longrightarrow> 0 < b \<Longrightarrow> js_rem a b = a mod b"
  by (cases "a = 0") (simp_all add: js_rem_def)

lemma rotatePage_mod:
  assumes "prev index = Some e" "0 \<le> rotation e"
  shows "rotatePage prev index = Inr (prev(index \<mapsto> e\<lparr>rotation := (rotation e + 90) mod 360\<rparr>))"
  using assms by (simp add: rotatePage_def js_rem_nonneg)

lemma rotateTimes_four:
  assumes "prev index = Some e" "0 \<le> rotation e" "rotation e < 360"
  shows "rotateTimes 4 prev index = Inr prev"
proof -
  define r where "r = rotation e"
  have "(((( r + 90) mod 360 + 90) mod 360 + 90) mod 360 + 90) mod 360 = (r + 360) mod 360"
    by (simp add: mod_simps)
  also have "\<dots> = r" using assms(2,3) by (simp add: r_def)
  finally have m: "(((( r + 90) mod 360 + 90) mod 360 + 90) mod 360 + 90) mod 360 = r" .
  have n: "0 \<le> (x :: int) mod 360" for x by simp
  have e: "e\<lparr>rotation := r\<rparr> = e" by (simp add: r_def)
  have p: "prev(index \<mapsto> e) = prev" using assms(1) by (rule map_upd_triv)
  have four: "(4::nat) = Suc (Suc (Suc (Suc 0)))" by simp
  show ?thesis
    using assms(1,2) unfolding four
    by (simp add: rotatePage_def js_rem_nonneg n r_def [symmetric] m e p)
qed

text \<open>
  C2 (amended): when every document loads, the rotation of each page the merge adds
  to the output is its own rotation plus the configured one, not reduced modulo 360 (so
  it agrees with the composed rotation of the specification modulo 360 only), and the
  saved document holds these pages, or one blank page when there is none; \<open>rotatePage\<close>
  on an entry with a rotation that is not negative sets it to (rotation + 90) mod 360;
  four applications to an entry with a rotation from 0 up to 359 give the map back.
\<close>

theorem rotation_written_and_rotatePage:
  assumes "\<forall>f \<in> set pdfFiles. asPdf (file' f) \<noteq> None"
    and "prev index = Some e" and "0 \<le> rotation e" and "rotation e < 360"
  shows "(\<exists>merged. mergeFiles pdfFiles [] = Inr merged
          \<and> createMergedPdfBlob pdfFiles = Inr (save merged)
          \<and> map Rotate merged =
              concat (map (\<lambda>f. map (\<lambda>i. Rotate (loadedPages f ! i) + rotation (resolveConfig f i))
                                 (selectedIndices f)) pdfFiles)
          \<and> map (\<lambda>p. Rotate p mod 360) merged =
              concat (map (\<lambda>f. map (\<lambda>i. composedRotation (Rotate (loadedPages f ! i))
                                          (rotation (resolveConfig f i)))
                                 (selectedIndices f)) pdfFiles))
       \<and> rotatePage prev index =
           Inr (prev(index \<mapsto> e\<lparr>rotation := (rotation e + 90) mod 360\<rparr>))
       \<and> rotateTimes 4 prev index = Inr prev"
proof -
  let ?out = "concat (map (\<lambda>f. map (outputPage f) (selectedIndices f)) pdfFiles)"
  have r: "mergeFiles pdfFiles [] = Inr ?out"
    using assms(1) by (rule mergeFiles_loaded_Nil)
  have s: "createMergedPdfBlob pdfFiles = Inr (save ?out)"
    using assms(1) by (rule createMergedPdfBlob_loaded)
  have a: "map Rotate ?out =
      concat (map (\<lambda>f. map (\<lambda>i. Rotate (loadedPages f ! i) + rotation (resolveConfig f i))
                                 (selectedIndices f)) pdfFiles)"
    by (simp add: map_concat o_def outputPage_def)
  have b: "map (\<lambda>p. Rotate p mod 360) ?out =
              concat (map (\<lambda>f. map (\<lambda>i. composedRotation (Rotate (loadedPages f ! i))
                                          (rotation (resolveConfig f i)))
                                 (selectedIndices f)) pdfFiles)"
    by (simp add: map_concat o_def outputPage_def composedRotation_def)
  have m: "\<exists>merged. mergeFiles pdfFiles [] = Inr merged
          \<and> createMergedPdfBlob pdfFiles = Inr (save merged)
          \<and> map Rotate merged =
              concat (map (\<lambda>f. map (\<lambda>i. Rotate (loadedPages f ! i) + rotation (resolveConfig f i))
                                 (selectedIndices f)) pdfFiles)
          \<and> map (\<lambda>p. Rotate p mod 360) merged =
              concat (map (\<lambda>f. map (\<lambda>i. composedRotation (Rotate (loadedPages f ! i))
                                          (rotation (resolveConfig f i)))
                                 (selectedIndices f)) pdfFiles)"
    using r s a b by (intro exI [of _ ?out] conjI)
  have p: "rotatePage prev index =
           Inr (prev(index \<mapsto> e\<lparr>rotation := (rotation e + 90) mod 360\<rparr>))"
    using assms(2,3) by (rule rotatePage_mod)
  have q: "rotateTimes 4 prev index = Inr prev"
    using assms(2,3,4) by (rule rotateTimes_four)
  show ?thesis using m p q by (intro conjI)
qed

text \<open>
  A page stored sideways (\<open>Rotate\<close> 270) and turned by 180 in the editor is written with
  \<open>Rotate\<close> 450, where the composed rotation of the specification is 90.
\<close>

theorem rotation_written_counterexample:
  "createMergedPdfBlob [exSideways] = Inr [exPage 1 450]
   \<and> Rotate (exPage 1 450) \<noteq> composedRotation (Rotate (exPage 1 270)) 180"
  by (simp add: createMergedPdfBlob_def exSideways_def exAppFile_def exFile_def exPage_def
      mergePage_def composedRotation_def save_def)

lemma ex_sideways_pages: "loadedPages exSideways = [exPage 1 270]"
  by (simp add: exSideways_def ex_loaded)

lemma ex_sideways_config:
  "resolveConfig exSideways 0 = \<lparr>selected = True, rotation = 180\<rparr>"
  by (simp add: exSideways_def resolveConfig_def exAppFile_def)

lemma ex_sideways_indices: "selectedIndices exSideways = [0]"
  by (simp add: selectedIndices_def ex_sideways_pages ex_sideways_config)

theorem rotation_written_and_rotatePage_witness:
  "(\<exists>merged. mergeFiles [exSideways] [] = Inr merged
       \<and> createMergedPdfBlob [exSideways] = Inr (save merged)
       \<and> map Rotate merged = [450]
       \<and> map (\<lambda>p. Rotate p mod 360) merged = [composedRotation 270 180])
   \<and> rotatePage (Map.empty(0 \<mapsto> \<lparr>selected = True, rotation = 270\<rparr>)) 0 =
       Inr (Map.empty(0 \<mapsto> \<lparr>selected = True, rotation = 0\<rparr>))
   \<and> rotateTimes 4 (Map.empty(0 \<mapsto> \<lparr>selected = True, rotation = 270\<rparr>)) 0 =
       Inr (Map.empty(0 \<mapsto> \<lparr>selected = True, rotation = 270\<rparr>))"
proof -
  let ?e = "\<lparr>selected = True, rotation = 270\<rparr>"
  have h: "\<forall>f \<in> set [exSideways]. asPdf (file' f) \<noteq> None"
    by (simp add: exSideways_def ex_loaded)
  have 2: "(Map.empty(0 \<mapsto> ?e)) (0::nat) = Some ?e" by simp
  have 3: "0 \<le> rotation ?e" and 4: "rotation ?e < 360" by simp_all
  have r: "Rotate (exPage c 270) = 270" for c by (simp add: exPage_def)
  from rotation_written_and_rotatePage [of "[exSideways]" "Map.empty(0 \<mapsto> ?e)" 0 ?e, OF h 2 3 4]
  show ?thesis
    by (simp add: ex_sideways_pages ex_sideways_config ex_sideways_indices r composedRotation_def)
qed

section \<open>Deselecting a page\<close>

lemma deselect_loaded [simp]: "loadedPages (deselect d i r) = loadedPages d"
  by (simp add: deselect_def loadedPages_def)

lemma deselect_asPdf [simp]: "asPdf (file' (deselect d i r)) = asPdf (file' d)"
  by (simp add: deselect_def)

lemma deselect_resolve:
  "resolveConfig (deselect d i r) j =
     (if j = i then \<lparr>selected = False, rotation = r\<rparr> else resolveConfig d j)"
  by (simp add: deselect_def resolveConfig_def split: option.splits)

lemma deselect_outputPage: "j \<noteq> i \<Longrightarrow> outputPage (deselect d i r) j = outputPage d j"
  by (simp add: outputPage_def deselect_resolve)

lemma selectedIndices_split:
  assumes "i < length (loadedPages d)" "selected (resolveConfig d i)"
  shows "selectedIndices d =
           filter (\<lambda>j. selected (resolveConfig d j)) [0..<i] @ i #
           filter (\<lambda>j. selected (resolveConfig d j)) [Suc i..<length (loadedPages d)]"
proof -
  have "[0..<length (loadedPages d)] = [0..<i] @ i # [Suc i..<length (loadedPages d)]"
    using assms(1) by (metis less_imp_le_nat upt_add_eq_append upt_conv_Cons le0 le_add_diff_inverse)
  then show ?thesis using assms(2) by (simp add: selectedIndices_def)
qed

lemma selectedIndices_deselect:
  assumes "i < length (loadedPages d)"
  shows "selectedIndices (deselect d i r) =
           filter (\<lambda>j. selected (resolveConfig d j)) [0..<i] @
           filter (\<lambda>j. selected (resolveConfig d j)) [Suc i..<length (loadedPages d)]"
proof -
  have u: "[0..<length (loadedPages d)] = [0..<i] @ i # [Suc i..<length (loadedPages d)]"
    using assms(1) by (metis less_imp_le_nat upt_add_eq_append upt_conv_Cons le0 le_add_diff_inverse)
  have a: "filter (\<lambda>j. selected (resolveConfig (deselect d i r) j)) [0..<i] =
           filter (\<lambda>j. selected (resolveConfig d j)) [0..<i]"
    by (rule filter_cong) (simp_all add: deselect_resolve)
  have b: "filter (\<lambda>j. selected (resolveConfig (deselect d i r) j)) [Suc i..<length (loadedPages d)] =
           filter (\<lambda>j. selected (resolveConfig d j)) [Suc i..<length (loadedPages d)]"
    by (rule filter_cong) (simp_all add: deselect_resolve)
  have c: "\<not> selected (resolveConfig (deselect d i r) i)"
    by (simp add: deselect_resolve)
  have "selectedIndices (deselect d i r) =
      filter (\<lambda>j. selected (resolveConfig (deselect d i r) j)) ([0..<i] @ i # [Suc i..<length (loadedPages d)])"
    unfolding selectedIndices_def deselect_loaded using u by simp
  also have "\<dots> = filter (\<lambda>j. selected (resolveConfig (deselect d i r) j)) [0..<i] @
      filter (\<lambda>j. selected (resolveConfig (deselect d i r) j)) [Suc i..<length (loadedPages d)]"
    using c by simp
  finally show ?thesis unfolding a b .
qed

lemma deselect_pages:
  assumes "i < length (loadedPages d)" "selected (resolveConfig d i)"
  defines "X \<equiv> map (outputPage d) (filter (\<lambda>j. selected (resolveConfig d j)) [0..<i])"
    and "Y \<equiv> map (outputPage d) (filter (\<lambda>j. selected (resolveConfig d j)) [Suc i..<length (loadedPages d)])"
  shows "map (outputPage d) (selectedIndices d) = X @ outputPage d i # Y"
    and "map (outputPage (deselect d i r)) (selectedIndices (deselect d i r)) = X @ Y"
proof -
  show "map (outputPage d) (selectedIndices d) = X @ outputPage d i # Y"
    by (simp add: selectedIndices_split [OF assms(1,2)] X_def Y_def)
  have "map (outputPage (deselect d i r)) (filter (\<lambda>j. selected (resolveConfig d j)) [0..<i]) = X"
    unfolding X_def by (rule map_cong [OF refl]) (simp add: deselect_outputPage)
  moreover have "map (outputPage (deselect d i r))
      (filter (\<lambda>j. selected (resolveConfig d j)) [Suc i..<length (loadedPages d)]) = Y"
    unfolding Y_def by (rule map_cong [OF refl]) (simp add: deselect_outputPage)
  ultimately show "map (outputPage (deselect d i r)) (selectedIndices (deselect d i r)) = X @ Y"
    by (simp add: selectedIndices_deselect [OF assms(1)])
qed

text \<open>
  C3 (amended): deselecting page \<open>i\<close> of a document whose page \<open>i\<close> was selected, all
  documents loading: the output of the merge was \<open>A @ page # B\<close>, where \<open>page\<close> is page
  \<open>i\<close> of the document and \<open>A\<close> holds the pages of the documents before it and its
  selected pages below \<open>i\<close>. If another page of the merge is selected the output becomes
  \<open>A @ B\<close>: exactly that page is removed, the others keep their order and the page count
  drops by one. If it was the only selected page the output becomes one blank page, and
  the page count stays 1.
\<close>

theorem deselect_removes_one_page:
  assumes "\<forall>f \<in> set (pre @ d # post). asPdf (file' f) \<noteq> None"
    and "i < length (loadedPages d)"
    and "selected (resolveConfig d i)"
  shows "\<exists>A B. createMergedPdfBlob (pre @ d # post) = Inr (A @ outputPage d i # B)
            \<and> createMergedPdfBlob (pre @ deselect d i r # post) =
                Inr (if A @ B = [] then [blankPage] else A @ B)
            \<and> length A = sum_list (map (\<lambda>f. length (selectedIndices f)) pre)
                          + length (filter (\<lambda>j. selected (resolveConfig d j)) [0..<i])
            \<and> (length (if A @ B = [] then [blankPage] else A @ B) + 1 =
                  length (A @ outputPage d i # B)) = (A @ B \<noteq> [])"
proof -
  define P where "P = concat (map (\<lambda>f. map (outputPage f) (selectedIndices f)) pre)"
  define Q where "Q = concat (map (\<lambda>f. map (outputPage f) (selectedIndices f)) post)"
  define X where "X = map (outputPage d) (filter (\<lambda>j. selected (resolveConfig d j)) [0..<i])"
  define Y where "Y = map (outputPage d)
      (filter (\<lambda>j. selected (resolveConfig d j)) [Suc i..<length (loadedPages d)])"
  have l': "\<forall>f \<in> set (pre @ deselect d i r # post). asPdf (file' f) \<noteq> None"
    using assms(1) by auto
  have "createMergedPdfBlob (pre @ d # post) = Inr (save ((P @ X) @ outputPage d i # (Y @ Q)))"
    unfolding createMergedPdfBlob_loaded [OF assms(1)]
    by (simp add: deselect_pages(1) [OF assms(2,3)] P_def Q_def X_def Y_def)
  then have 1: "createMergedPdfBlob (pre @ d # post) = Inr ((P @ X) @ outputPage d i # (Y @ Q))"
    by (simp add: save_def)
  have "createMergedPdfBlob (pre @ deselect d i r # post) = Inr (save ((P @ X) @ (Y @ Q)))"
    unfolding createMergedPdfBlob_loaded [OF l']
    by (simp add: deselect_pages(2) [OF assms(2,3)] P_def Q_def X_def Y_def)
  then have 2: "createMergedPdfBlob (pre @ deselect d i r # post) =
      Inr (if (P @ X) @ (Y @ Q) = [] then [blankPage] else (P @ X) @ (Y @ Q))"
    by (simp only: save_def)
  have 3: "length (P @ X) = sum_list (map (\<lambda>f. length (selectedIndices f)) pre)
                          + length (filter (\<lambda>j. selected (resolveConfig d j)) [0..<i])"
    by (simp add: P_def X_def length_concat o_def)
  have 4: "(length (if (P @ X) @ (Y @ Q) = [] then [blankPage] else (P @ X) @ (Y @ Q)) + 1 =
              length ((P @ X) @ outputPage d i # (Y @ Q))) = ((P @ X) @ (Y @ Q) \<noteq> [])"
    by (cases "(P @ X) @ (Y @ Q) = []") simp_all
  show ?thesis
    using 1 2 3 4 by (intro exI [of _ "P @ X"] exI [of _ "Y @ Q"] conjI)
qed

text \<open>
  A document of one page is merged alone: one page. With that page deselected the merge
  returns one blank page: the page count is 1 as before.
\<close>

theorem deselect_removes_one_page_counterexample:
  "createMergedPdfBlob [exImageDoc] = Inr [exPage 1 0]
   \<and> createMergedPdfBlob [deselect exImageDoc 0 0] = Inr [blankPage]
   \<and> length [blankPage] + 1 \<noteq> length [exPage 1 0]"
  by (simp add: createMergedPdfBlob_def deselect_def exImageDoc_def exAppFile_def exFile_def
      mergePage_def save_def)

lemma ex_three:
  "loadedPages exThreePages = [exPage 4 0, exPage 5 0, exPage 6 0]"
  "resolveConfig exThreePages i = \<lparr>selected = True, rotation = 0\<rparr>"
  "outputPage exThreePages (Suc 0) = exPage 5 0"
  by (simp_all add: exThreePages_def ex_loaded ex_resolve_None outputPage_def exPage_def)

theorem deselect_removes_one_page_witness:
  "\<exists>A B. createMergedPdfBlob [exImageDoc, exThreePages, exTwoPages] = Inr (A @ exPage 5 0 # B)
       \<and> createMergedPdfBlob [exImageDoc, deselect exThreePages 1 0, exTwoPages] =
           Inr (if A @ B = [] then [blankPage] else A @ B)
       \<and> length A = 2"
proof -
  have h: "\<forall>f \<in> set ([exImageDoc] @ exThreePages # [exTwoPages]). asPdf (file' f) \<noteq> None"
    by (simp add: exImageDoc_def exTwoPages_def exThreePages_def ex_loaded)
  have i: "1 < length (loadedPages exThreePages)" by (simp add: ex_three)
  have s: "selected (resolveConfig exThreePages 1)" by (simp add: ex_three)
  have n: "selectedIndices exImageDoc = [0]"
    by (simp add: selectedIndices_def exImageDoc_def ex_loaded ex_resolve_None)
  from deselect_removes_one_page [OF h i s, of 0]
  obtain A B where
    a: "createMergedPdfBlob ([exImageDoc] @ exThreePages # [exTwoPages]) =
          Inr (A @ outputPage exThreePages 1 # B)"
    and b: "createMergedPdfBlob ([exImageDoc] @ deselect exThreePages 1 0 # [exTwoPages]) =
          Inr (if A @ B = [] then [blankPage] else A @ B)"
    and c: "length A = sum_list (map (\<lambda>f. length (selectedIndices f)) [exImageDoc])
              + length (filter (\<lambda>j. selected (resolveConfig exThreePages j)) [0..<1])"
    by blast
  have a': "createMergedPdfBlob [exImageDoc, exThreePages, exTwoPages] = Inr (A @ exPage 5 0 # B)"
    using a by (simp add: ex_three)
  have b': "createMergedPdfBlob [exImageDoc, deselect exThreePages 1 0, exTwoPages] =
           Inr (if A @ B = [] then [blankPage] else A @ B)"
    using b by simp
  have c': "length A = 2" using c by (simp add: n ex_three)
  show ?thesis using a' b' c' by blast
qed

lemma PageConfig_deselected:
  "e\<lparr>selected := False\<rparr> = \<lparr>selected = False, rotation = rotation e\<rparr>"
  by (cases e) simp

lemma toggleSelection_deselect:
  assumes "pageConfig d = Some pc" and "pc i = Some e" and "selected e"
  shows "toggleSelection pc i = Inr (pc(i \<mapsto> \<lparr>selected = False, rotation = rotation e\<rparr>))"
    and "d\<lparr>pageConfig := Some (pc(i \<mapsto> \<lparr>selected = False, rotation = rotation e\<rparr>))\<rparr> =
           deselect d i (rotation e)"
  using assms by (simp_all add: toggleSelection_def deselect_def PageConfig_deselected)

section \<open>Properties of the page configuration\<close>



lemma setAllSelected_present:
  assumes "\<forall>i \<in> set js. cfg i \<noteq> None"
  shows "setAllSelected b js cfg =
           Inr (\<lambda>i. if i \<in> set js then map_option (\<lambda>e. e\<lparr>selected := b\<rparr>) (cfg i) else cfg i)"
  using assms
proof (induction js arbitrary: cfg)
  case Nil
  then show ?case by simp
next
  case (Cons j js)
  then obtain e where e: "cfg j = Some e" by auto
  let ?c = "cfg(j \<mapsto> e\<lparr>selected := b\<rparr>)"
  have "\<forall>i \<in> set js. ?c i \<noteq> None" using Cons.prems by simp
  then have ih: "setAllSelected b js ?c =
      Inr (\<lambda>i. if i \<in> set js then map_option (\<lambda>e. e\<lparr>selected := b\<rparr>) (?c i) else ?c i)"
    by (rule Cons.IH)
  have g: "(\<lambda>i. if i \<in> set js then map_option (\<lambda>e. e\<lparr>selected := b\<rparr>) (?c i) else ?c i) =
      (\<lambda>i. if i \<in> set (j # js) then map_option (\<lambda>e. e\<lparr>selected := b\<rparr>) (cfg i) else cfg i)"
    by (auto simp: fun_eq_iff e)
  show ?case using ih by (simp only: setAllSelected.simps e option.case g)
qed

lemma setAllSelected_missing:
  assumes "\<exists>i \<in> set js. cfg i = None"
  shows "setAllSelected b js cfg = Inl TypeError"
  using assms
proof (induction js arbitrary: cfg)
  case Nil
  then show ?case by simp
next
  case (Cons j js)
  show ?case
  proof (cases "cfg j")
    case None
    then show ?thesis by simp
  next
    case (Some e)
    from Cons.prems obtain i where i: "i \<in> set (j # js)" "cfg i = None" by blast
    then have "i \<noteq> j" using Some by auto
    then have "i \<in> set js" "(cfg(j \<mapsto> e\<lparr>selected := b\<rparr>)) i = None" using i by simp_all
    then have "\<exists>i \<in> set js. (cfg(j \<mapsto> e\<lparr>selected := b\<rparr>)) i = None" by blast
    then have ih: "setAllSelected b js (cfg(j \<mapsto> e\<lparr>selected := b\<rparr>)) = Inl TypeError"
      by (rule Cons.IH)
    show ?thesis by (simp only: setAllSelected.simps Some option.case ih)
  qed
qed

lemma fillDefaults_lookup:
  "fst (fillDefaults js (newConfig, ch)) i =
     (if i \<in> set js \<and> newConfig i = None then Some \<lparr>selected = True, rotation = 0\<rparr>
      else newConfig i)"
  by (induction js arbitrary: newConfig ch) (auto split: option.splits)

lemma fillDefaults_changed:
  "snd (fillDefaults js (newConfig, ch)) \<longleftrightarrow> ch \<or> (\<exists>i \<in> set js. newConfig i = None)"
  by (induction js arbitrary: newConfig ch) (auto split: option.splits)

lemma initConfig_empty:
  "initConfig Map.empty numPages =
     (\<lambda>i. if i < numPages then Some \<lparr>selected = True, rotation = 0\<rparr> else None)"
proof (cases "numPages = 0")
  case True
  then show ?thesis by (simp add: initConfig_def)
next
  case False
  obtain nc ch where f: "fillDefaults [0..<numPages] (Map.empty, False) = (nc, ch)"
    by (cases "fillDefaults [0..<numPages] (Map.empty, False)")
  have "ch" using fillDefaults_changed [of "[0..<numPages]" Map.empty False] f False
    by auto
  moreover have "nc i = (if i < numPages then Some \<lparr>selected = True, rotation = 0\<rparr> else None)" for i
    using fillDefaults_lookup [of "[0..<numPages]" Map.empty False i] f by simp
  ultimately show ?thesis by (simp add: initConfig_def f fun_eq_iff)
qed

lemma selectAll_after_initConfig:
  "selectAll (initConfig Map.empty numPages) numPages =
     Inr (\<lambda>i. if i < numPages then Some \<lparr>selected = True, rotation = 0\<rparr> else None)"
  "deselectAll (initConfig Map.empty numPages) numPages =
     Inr (\<lambda>i. if i < numPages then Some \<lparr>selected = False, rotation = 0\<rparr> else None)"
  by (simp_all add: selectAll_def deselectAll_def initConfig_empty setAllSelected_present fun_eq_iff)

section \<open>Properties of the placement\<close>

lemma handleMouseMove_clampAxis:
  assumes "isDragging st" and "sigImageDims st = Some sig"
  shows "handleMouseMove st (Some rect) clientX clientY =
     st\<lparr>dragPos :=
        (clampAxis (clientX - rect_left rect - visualWidth st / 2) (visualWidth st)
           (rect_width rect),
         clampAxis (clientY - rect_top rect - visualWidth st * (snd sig / fst sig) / 2)
           (visualWidth st * (snd sig / fst sig)) (rect_height rect))\<rparr>"
  unfolding handleMouseMove_def clampAxis_def Let_def
  by (simp only: assms not_True_eq_False if_False option.case)

lemma clampAxis_upper: "clampAxis p extent bound + extent \<le> bound"
  by (simp add: clampAxis_def)

lemma clampAxis_lower: "0 \<le> clampAxis p extent bound \<longleftrightarrow> extent \<le> bound"
  by (auto simp add: clampAxis_def)

lemma clampAxis_inside: "0 \<le> p \<Longrightarrow> p + extent \<le> bound \<Longrightarrow> clampAxis p extent bound = p"
  by (simp add: clampAxis_def)

text \<open>
  C9 (amended): after a pointer move during a drag, with the size of the signature known
  and positive, the stored position satisfies \<open>x + visualWidth \<le> W\<close> and
  \<open>y + visualHeight \<le> H\<close> for every pointer position; \<open>0 \<le> x\<close> holds exactly when
  \<open>visualWidth \<le> W\<close>, and \<open>0 \<le> y\<close> exactly when \<open>visualHeight \<le> H\<close>.
\<close>

theorem clamp_bounds:
  assumes "isDragging st" and "sigImageDims st = Some (sw, sh)" and "0 < sw"
    and "case pdfPageDimensions st of None \<Rightarrow> True | Some pg \<Rightarrow> 0 < fst pg"
    and "dragPos (handleMouseMove st (Some rect) clientX clientY) = (x, y)"
    and "visualHeight = visualWidth st * (sh / sw)"
  shows "x + visualWidth st \<le> rect_width rect \<and> y + visualHeight \<le> rect_height rect
       \<and> (0 \<le> x \<longleftrightarrow> visualWidth st \<le> rect_width rect)
       \<and> (0 \<le> y \<longleftrightarrow> visualHeight \<le> rect_height rect)"
proof -
  have x: "x = clampAxis (clientX - rect_left rect - visualWidth st / 2) (visualWidth st)
           (rect_width rect)"
    and y: "y = clampAxis (clientY - rect_top rect - visualHeight / 2) visualHeight (rect_height rect)"
    using assms(5) unfolding handleMouseMove_clampAxis [OF assms(1,2)] assms(6) by simp_all
  show ?thesis unfolding x y by (simp only: clampAxis_upper clampAxis_lower simp_thms)
qed

text \<open>
  A signature of 2000 by 1000 pixels at scale 0.8 is 800 wide in the preview of width 300:
  the stored \<open>x\<close> is \<open>300 - 800\<close>.
\<close>

theorem clamp_bounds_counterexample:
  "dragPos (handleMouseMove (exSignState\<lparr>sigImageDims := Some (2000, 1000), signatureScale := 4/5\<rparr>)
      (Some exRect) 150 200) = (- 500, 0)
   \<and> \<not> (0::real) \<le> - 500"
  by (simp add: handleMouseMove_def exSignState_def exRect_def visualWidth_def Let_def)

theorem clamp_bounds_witness:
  "dragPos (handleMouseMove exSignState (Some exRect) 290 10) = (250, 0)
   \<and> visualWidth exSignState = 50
   \<and> (250::real) + 50 \<le> 300"
proof -
  have d: "dragPos (handleMouseMove exSignState (Some exRect) 290 10) = (250, 0)"
    by (simp add: handleMouseMove_def exSignState_def exRect_def visualWidth_def Let_def)
  have v: "visualWidth exSignState = 50"
    by (simp add: exSignState_def visualWidth_def)
  have 1: "isDragging exSignState" and 2: "sigImageDims exSignState = Some (200, 100)"
    and 4: "case pdfPageDimensions exSignState of None \<Rightarrow> True | Some pg \<Rightarrow> 0 < fst pg"
    by (simp_all add: exSignState_def)
  from clamp_bounds [OF 1 2 _ 4 d refl]
  have "250 + visualWidth exSignState \<le> rect_width exRect" by simp
  then show ?thesis using d v by (simp add: exRect_def)
qed

text \<open>
  C4: in interactive mode with a preview of size \<open>(W, H)\<close> and the drag position
  \<open>(x, y)\<close>, the signature is drawn on a page of size \<open>(Wt, Ht)\<close> at
  \<open>px = x / W * Wt\<close>, \<open>py = Ht - y / H * Ht - ah\<close>, with the size
  \<open>(iw * s, ih * s)\<close> of the image times the one scale \<open>s\<close> of the state, the same
  for every page of every document.
\<close>

theorem interactive_placement:
  assumes "useVisualPlacement st" and "canvasDims st = Some (W, H)" and "0 < W" and "0 < H"
    and "dragPos st = (x, y)"
    and "asPdf (sign_file pdfItem) = Some pages"
    and "(if ftype sig = ''image/jpeg'' then asJpg sig else asPng sig) = Some (iw, ih)"
  shows "placement st (scale (iw, ih) (signatureScale st)) page =
           (x / W * page_width page,
            page_height page - y / H * page_height page - ih * signatureScale st)
       \<and> signPdf st sig pdfItem =
           Inr (signedName (name (sign_file pdfItem)),
                stampPages st (iw * signatureScale st, ih * signatureScale st) pages)
       \<and> drawSignature st (iw * signatureScale st, ih * signatureScale st) page =
           page\<lparr>images := images page @
             [(x / W * page_width page,
               page_height page - y / H * page_height page - ih * signatureScale st,
               iw * signatureScale st, ih * signatureScale st)]\<rparr>"
  using assms by (simp add: placement_def scale_def signPdf_def drawSignature_def Let_def)

theorem interactive_placement_witness:
  "placement (exSignState\<lparr>dragPos := (150, 100)\<rparr>) (scale (200, 100) (1/2)) (exSizedPage 1200 1600)
     = (600, 1150)"
proof -
  let ?st = "exSignState\<lparr>dragPos := (150, 100)\<rparr>"
  have 1: "useVisualPlacement ?st" and 2: "canvasDims ?st = Some (300, 400)"
    and 5: "dragPos ?st = (150, 100)" and s: "signatureScale ?st = 1/2"
    by (simp_all add: exSignState_def)
  have 6: "asPdf (sign_file exTarget) = Some [exSizedPage 600 800]"
    by (simp add: exTarget_def exFile_def)
  have 7: "(if ftype exSignature = ''image/jpeg'' then asJpg exSignature else asPng exSignature)
      = Some (200, 100)"
    by (simp add: exSignature_def)
  from interactive_placement [OF 1 2 _ _ 5 6 7, of "exSizedPage 1200 1600"]
  show ?thesis unfolding s by (simp add: exSizedPage_def)
qed

lemma renderPage_dims:
  assumes "0 < fst unscaledViewport" and "0 < clientWidth"
  shows "pdfPageDimensions (renderPage st clientWidth unscaledViewport) =
           Some (fst unscaledViewport, snd unscaledViewport)"
    and "canvasDims (renderPage st clientWidth unscaledViewport) =
           Some (clientWidth / fst unscaledViewport * fst unscaledViewport,
                 clientWidth / fst unscaledViewport * snd unscaledViewport)"
  using assms by (simp_all add: renderPage_def Let_def)

lemma centre_dragPos:
  assumes "isDragging st"
    and "sigImageDims st = Some (sw, sh)" and "0 < sw"
    and "pdfPageDimensions st = Some (Wref, Href)" and "0 < Wref" and "0 < Href"
    and "canvasDims st = Some (k * Wref, k * Href)" and "0 < k"
    and "rect_width rect = k * Wref" and "rect_height rect = k * Href"
    and "sw * signatureScale st \<le> Wref" and "sh * signatureScale st \<le> Href"
  shows "handleMouseMove st (Some rect)
            (rect_left rect + rect_width rect / 2) (rect_top rect + rect_height rect / 2) =
         st\<lparr>dragPos := (k * Wref / 2 - k * (sw * signatureScale st) / 2,
                         k * Href / 2 - k * (sh * signatureScale st) / 2)\<rparr>"
proof -
  define W where "W = k * Wref"
  define H where "H = k * Href"
  define vw where "vw = k * (sw * signatureScale st)"
  define vh where "vh = k * (sh * signatureScale st)"
  have vw: "visualWidth st = vw"
    using assms(2,4,5,7) by (simp add: visualWidth_def vw_def)
  have vh: "vw * (snd (sw, sh) / fst (sw, sh)) = vh"
    using assms(3) by (simp add: vw_def vh_def)
  have a: "vw \<le> W" unfolding vw_def W_def using assms(8,11) by simp
  have b: "vh \<le> H" unfolding vh_def H_def using assms(8,12) by simp
  have r: "rect_width rect = W" "rect_height rect = H" by (simp_all add: W_def H_def assms(9,10))
  have x: "clampAxis (rect_left rect + W / 2 - rect_left rect - vw / 2) vw W = W / 2 - vw / 2"
    using a by (intro trans [OF clampAxis_inside]) simp_all
  have y: "clampAxis (rect_top rect + H / 2 - rect_top rect - vh / 2) vh H = H / 2 - vh / 2"
    using b by (intro trans [OF clampAxis_inside]) simp_all
  have "handleMouseMove st (Some rect) (rect_left rect + rect_width rect / 2)
          (rect_top rect + rect_height rect / 2) = st\<lparr>dragPos := (W / 2 - vw / 2, H / 2 - vh / 2)\<rparr>"
    unfolding handleMouseMove_clampAxis [OF assms(1,2)] vw vh r x y ..
  then show ?thesis unfolding W_def H_def vw_def vh_def .
qed

text \<open>
  C5 (amended): the pointer at the centre of the preview, the signature fitting the
  reference page, the preview a scaled copy of the reference page. The centre of the
  rectangle drawn on a page of size \<open>(Wt, Ht)\<close> is
  \<open>(Wt / 2 + aw / 2 * (1 - Wt / Wref), Ht / 2 + ah / 2 * (Ht / Href - 1))\<close>: the
  rectangle is centred on every page of the size of the reference page.
\<close>

theorem centre_placement:
  assumes "isDragging st" and "useVisualPlacement st"
    and "sigImageDims st = Some (sw, sh)" and "0 < sw"
    and "pdfPageDimensions st = Some (Wref, Href)" and "0 < Wref" and "0 < Href"
    and "canvasDims st = Some (k * Wref, k * Href)" and "0 < k"
    and "rect_width rect = k * Wref" and "rect_height rect = k * Href"
    and "sw * signatureScale st \<le> Wref" and "sh * signatureScale st \<le> Href"
    and "st' = handleMouseMove st (Some rect)
            (rect_left rect + rect_width rect / 2) (rect_top rect + rect_height rect / 2)"
    and "aw = sw * signatureScale st" and "ah = sh * signatureScale st"
  shows "fst (placement st' (aw, ah) page) + aw / 2 =
           page_width page / 2 + aw / 2 * (1 - page_width page / Wref)
       \<and> snd (placement st' (aw, ah) page) + ah / 2 =
           page_height page / 2 + ah / 2 * (page_height page / Href - 1)
       \<and> (page_width page = Wref \<and> page_height page = Href \<longrightarrow>
            centred page (placement st' (aw, ah) page) (aw, ah))"
proof -
  have m: "st' = st\<lparr>dragPos := (k * Wref / 2 - k * aw / 2, k * Href / 2 - k * ah / 2)\<rparr>"
    unfolding assms(14,15,16)
    using assms(1,3-13) by (rule centre_dragPos)
  have d: "dragPos st' = (k * Wref / 2 - k * aw / 2, k * Href / 2 - k * ah / 2)"
    by (simp add: m)
  have c: "canvasDims st' = Some (k * Wref, k * Href)" "useVisualPlacement st'"
    using assms(2,8) by (simp_all add: m)
  have fx: "(k * Wref / 2 - k * aw / 2) / (k * Wref) = 1 / 2 - aw / (2 * Wref)"
    using assms(6,9) by (simp add: field_simps)
  have fy: "(k * Href / 2 - k * ah / 2) / (k * Href) = 1 / 2 - ah / (2 * Href)"
    using assms(7,9) by (simp add: field_simps)
  have p0: "placement st' (aw, ah) page =
      ((k * Wref / 2 - k * aw / 2) / (k * Wref) * page_width page,
       page_height page - (k * Href / 2 - k * ah / 2) / (k * Href) * page_height page - ah)"
    by (simp add: placement_def Let_def c d)
  have p: "placement st' (aw, ah) page =
      ((1 / 2 - aw / (2 * Wref)) * page_width page,
       page_height page - (1 / 2 - ah / (2 * Href)) * page_height page - ah)"
    unfolding p0 fx fy ..
  have x: "fst (placement st' (aw, ah) page) + aw / 2 =
           page_width page / 2 + aw / 2 * (1 - page_width page / Wref)"
    unfolding p using assms(6) by (simp add: field_simps)
  have y: "snd (placement st' (aw, ah) page) + ah / 2 =
           page_height page / 2 + ah / 2 * (page_height page / Href - 1)"
    unfolding p using assms(7) by (simp add: field_simps)
  have z: "centred page (placement st' (aw, ah) page) (aw, ah)"
    if "page_width page = Wref \<and> page_height page = Href"
    using x y that assms(6,7) by (simp add: centred_def)
  show ?thesis using x y z by blast
qed

lemma ex_moved:
  "handleMouseMove exSignState (Some exRect) 150 200 = exSignState\<lparr>dragPos := (125, 375/2)\<rparr>"
  by (simp add: handleMouseMove_def exSignState_def exRect_def visualWidth_def Let_def)

lemma ex_placement_big:
  "placement (exSignState\<lparr>dragPos := (125, 375/2)\<rparr>) (100, 50) (exSizedPage 1200 1600) = (500, 800)"
  by (simp add: placement_def exSignState_def exSizedPage_def Let_def)

lemma ex_scale: "scale (200, 100) (1/2) = (100, 50)"
  by (simp add: scale_def)

text \<open>
  On a page of twice the size of the reference page the rectangle of 100 by 50 is drawn
  at (500, 800): its centre is (550, 825), the centre of the page (600, 800).
\<close>

theorem centre_placement_counterexample:
  "placement (handleMouseMove exSignState (Some exRect) 150 200) (scale (200, 100) (1/2))
      (exSizedPage 1200 1600) = (500, 800)
   \<and> \<not> centred (exSizedPage 1200 1600)
        (placement (handleMouseMove exSignState (Some exRect) 150 200) (scale (200, 100) (1/2))
           (exSizedPage 1200 1600))
        (scale (200, 100) (1/2))"
  unfolding ex_moved ex_scale ex_placement_big
  by (simp add: centred_def exSizedPage_def)

theorem centre_placement_witness:
  "handleMouseMove exSignState (Some exRect) 150 200 = exSignState\<lparr>dragPos := (125, 375/2)\<rparr>
   \<and> centred (exSizedPage 600 800)
     (placement (exSignState\<lparr>dragPos := (125, 375/2)\<rparr>) (100, 50) (exSizedPage 600 800))
     (100, 50)"
proof -
  have 1: "isDragging exSignState" and 2: "useVisualPlacement exSignState"
    and 3: "sigImageDims exSignState = Some (200, 100)"
    and 5: "pdfPageDimensions exSignState = Some (600, 800)"
    and 8: "canvasDims exSignState = Some (1/2 * 600, 1/2 * 800)"
    and 12: "200 * signatureScale exSignState \<le> 600"
    and 13: "100 * signatureScale exSignState \<le> 800"
    and 15: "100 = 200 * signatureScale exSignState"
    and 16: "50 = 100 * signatureScale exSignState"
    by (simp_all add: exSignState_def)
  have 10: "rect_width exRect = 1/2 * 600" and 11: "rect_height exRect = 1/2 * 800"
    by (simp_all add: exRect_def)
  have 14: "exSignState\<lparr>dragPos := (125, 375/2)\<rparr> =
      handleMouseMove exSignState (Some exRect)
        (rect_left exRect + rect_width exRect / 2) (rect_top exRect + rect_height exRect / 2)"
    using ex_moved by (simp add: exRect_def)
  have pg: "page_width (exSizedPage 600 800) = 600 \<and> page_height (exSizedPage 600 800) = 800"
    by (simp add: exSizedPage_def)
  from centre_placement [OF 1 2 3 _ 5 _ _ 8 _ 10 11 12 13 14 15 16, of "exSizedPage 600 800"] pg
  have "centred (exSizedPage 600 800)
     (placement (exSignState\<lparr>dragPos := (125, 375/2)\<rparr>) (100, 50) (exSizedPage 600 800))
     (100, 50)" by simp
  then show ?thesis using ex_moved by simp
qed

section \<open>The output of signing\<close>

lemma signedName_a: "signedName ''a.pdf'' = ''a_firmado.pdf''"
  by (simp add: signedName_def replaceExtension_def)

text \<open>
  C6: two documents named \<open>a.pdf\<close> are signed. Both results are named
  \<open>a_firmado.pdf\<close>, the second replaces the first in the archive, and the archive
  that is downloaded has one entry for two documents.
\<close>

theorem same_name_archive:
  "handleSign exSameNames =
     Inr (Some (DownloadZip ''documentos_firmados.zip''
                 [(''a_firmado.pdf'',
                   [(exSizedPage 300 400)\<lparr>images := [(50, 300, 100, 50)]\<rparr>])]),
          exSameNames\<lparr>pdfs := [], signatureImage := None, sigImageDims := None\<rparr>)
   \<and> length (pdfs exSameNames) = 2"
  by (simp add: handleSign_def exSameNames_def exSignState_def exSignature_def signPdf_def
      exFile_def signedName_a stampPages_def drawSignature_def placement_def scale_def
      zip_file_def exSizedPage_def Let_def)

lemma signPdf_name: "signPdf st sig p = Inr sp \<Longrightarrow> fst sp = signedName (name (sign_file p))"
  by (auto simp: signPdf_def split: option.splits)

lemma signLoop_names:
  "signLoop st sig ps acc = Inr r \<Longrightarrow>
     map fst r = map fst acc @ map (\<lambda>p. signedName (name (sign_file p))) ps"
proof (induction ps arbitrary: acc)
  case Nil
  then show ?case by simp
next
  case (Cons p ps)
  then obtain sp where sp: "signPdf st sig p = Inr sp" and
    r: "signLoop st sig ps (acc @ [sp]) = Inr r"
    by (auto split: sum.splits)
  from Cons.IH [OF r] show ?case by (simp add: signPdf_name [OF sp])
qed

lemma signLoop_total:
  assumes "\<forall>p \<in> set ps. \<exists>sp. signPdf st sig p = Inr sp"
  shows "\<exists>r. signLoop st sig ps acc = Inr r"
  using assms by (induction ps arbitrary: acc) auto

lemma zip_file_fresh: "n \<notin> set (map fst archive) \<Longrightarrow> zip_file archive n data = archive @ [(n, data)]"
  by (simp add: zip_file_def)

lemma foldl_zip_file_distinct:
  "distinct (map fst (acc @ xs)) \<Longrightarrow>
     foldl (\<lambda>archive sp. zip_file archive (fst sp) (snd sp)) acc xs = acc @ xs"
proof (induction xs arbitrary: acc)
  case Nil
  then show ?case by simp
next
  case (Cons x xs)
  have f: "fst x \<notin> set (map fst acc)" using Cons.prems by auto
  have "distinct (map fst ((acc @ [x]) @ xs))" using Cons.prems by simp
  from Cons.IH [OF this] show ?case by (simp add: zip_file_fresh [OF f])
qed

lemma handleSign_single:
  assumes "pdfs st = [p]" and "signatureImage st = Some sig" and "signPdf st sig p = Inr sp"
  shows "handleSign st =
     Inr (Some (Download (signedName (name (sign_file p))) (snd sp)),
          st\<lparr>pdfs := [], signatureImage := None, sigImageDims := None\<rparr>)"
  using assms signPdf_name [OF assms(3)] by (simp add: handleSign_def)

lemma handleSign_archive_distinct:
  assumes "1 < length (pdfs st)" and "signatureImage st = Some sig"
    and "\<forall>p \<in> set (pdfs st). \<exists>sp. signPdf st sig p = Inr sp"
    and "distinct (map (\<lambda>p. signedName (name (sign_file p))) (pdfs st))"
  shows "\<exists>entries st'. handleSign st = Inr (Some (DownloadZip ''documentos_firmados.zip'' entries), st')
      \<and> map fst entries = map (\<lambda>p. signedName (name (sign_file p))) (pdfs st)
      \<and> length entries = length (pdfs st)"
proof -
  obtain r where r: "signLoop st sig (pdfs st) [] = Inr r"
    using signLoop_total [OF assms(3)] by blast
  have n: "map fst r = map (\<lambda>p. signedName (name (sign_file p))) (pdfs st)"
    using signLoop_names [OF r] by simp
  then have l: "length r = length (pdfs st)" by (metis length_map)
  have d: "distinct (map fst ([] @ r))" using assms(4) n by simp
  have z: "foldl (\<lambda>archive sp. zip_file archive (fst sp) (snd sp)) [] r = r"
    using foldl_zip_file_distinct [OF d] by simp
  have ne: "pdfs st \<noteq> []" using assms(1) by auto
  obtain a r' where a: "r = a # r'" using l assms(1) by (cases r) auto
  obtain b c where "r' = b # c" using l assms(1) a by (cases r') auto
  with a have "r = a # b # c" by simp
  then have "handleSign st = Inr (Some (DownloadZip ''documentos_firmados.zip'' r),
      st\<lparr>pdfs := [], signatureImage := None, sigImageDims := None\<rparr>)"
    using ne assms(2) r z by (simp add: handleSign_def)
  then show ?thesis using n l by blast
qed

section \<open>Properties of adding a batch\<close>

lemma promiseAll_run_rejected:
  assumes "\<exists>i \<in> set order. i < length outcomes \<and> outcomes ! i = None"
  shows "promiseAll_run order outcomes slots = Rejected"
  using assms
proof (induction order arbitrary: slots)
  case Nil
  then show ?case by simp
next
  case (Cons j order)
  show ?case
  proof (cases "j < length outcomes \<and> outcomes ! j = None")
    case True
    then show ?thesis by simp
  next
    case False
    then have "\<exists>i \<in> set order. i < length outcomes \<and> outcomes ! i = None"
      using Cons.prems by auto
    then have "promiseAll_run order outcomes s = Rejected" for s by (rule Cons.IH)
    then show ?thesis by (simp split: option.splits)
  qed
qed

lemma those_map_Some: "those (map Some xs) = Some xs"
  by (induction xs) simp_all

lemma promiseAll_run_fulfilled:
  assumes "\<forall>i < length outcomes. outcomes ! i \<noteq> None"
    and "length slots = length outcomes"
    and "\<forall>i < length outcomes. slots ! i = None \<or> slots ! i = outcomes ! i"
    and "\<forall>i < length outcomes. i \<in> set order \<or> slots ! i \<noteq> None"
  shows "promiseAll_run order outcomes slots = Fulfilled (map the outcomes)"
  using assms(2-4)
proof (induction order arbitrary: slots)
  case Nil
  have "slots ! i = outcomes ! i" if "i < length outcomes" for i
  proof -
    have n: "slots ! i \<noteq> None" using Nil.prems(3) [rule_format, OF that] by simp
    show ?thesis using Nil.prems(2) [rule_format, OF that] n by simp
  qed
  then have "slots = outcomes"
    using Nil.prems(1) by (intro nth_equalityI) simp_all
  also have "\<dots> = map Some (map the outcomes)"
  proof (rule nth_equalityI)
    show "length outcomes = length (map Some (map the outcomes))" by simp
    fix i assume "i < length outcomes"
    then show "outcomes ! i = map Some (map the outcomes) ! i"
      using assms(1) [rule_format, of i] by simp
  qed
  finally have "slots = map Some (map the outcomes)" .
  then have "those slots = Some (map the outcomes)" by (simp only: those_map_Some)
  then show ?case by simp
next
  case (Cons j order)
  show ?case
  proof (cases "j < length outcomes")
    case False
    have "promiseAll_run order outcomes slots = Fulfilled (map the outcomes)"
    proof (rule Cons.IH [OF Cons.prems(1,2)], intro allI impI)
      fix i assume i: "i < length outcomes"
      then have "i \<noteq> j" using False by auto
      then show "i \<in> set order \<or> slots ! i \<noteq> None"
        using Cons.prems(3) [rule_format, OF i] by simp
    qed
    then show ?thesis using False by simp
  next
    case True
    then obtain v where v: "outcomes ! j = Some v" using assms(1) [rule_format, of j] by auto
    have "promiseAll_run order outcomes (slots[j := Some v]) = Fulfilled (map the outcomes)"
    proof (rule Cons.IH)
      show "length (slots[j := Some v]) = length outcomes" using Cons.prems(1) by simp
      show "\<forall>i<length outcomes. slots[j := Some v] ! i = None \<or> slots[j := Some v] ! i = outcomes ! i"
      proof (intro allI impI)
        fix i assume i: "i < length outcomes"
        show "slots[j := Some v] ! i = None \<or> slots[j := Some v] ! i = outcomes ! i"
          using Cons.prems(2) [rule_format, OF i] Cons.prems(1) i v
          by (cases "i = j") simp_all
      qed
      show "\<forall>i<length outcomes. i \<in> set order \<or> slots[j := Some v] ! i \<noteq> None"
      proof (intro allI impI)
        fix i assume i: "i < length outcomes"
        show "i \<in> set order \<or> slots[j := Some v] ! i \<noteq> None"
          using Cons.prems(3) [rule_format, OF i] Cons.prems(1) i
          by (cases "i = j") simp_all
      qed
    qed
    then show ?thesis using True v by simp
  qed
qed

lemma promiseAll_settles:
  assumes "{..<length outcomes} \<subseteq> set order"
  shows "promiseAll order outcomes =
           (if \<forall>t \<in> set outcomes. t \<noteq> None then Fulfilled (map the outcomes) else Rejected)"
proof (cases "\<forall>t \<in> set outcomes. t \<noteq> None")
  case True
  then have a: "\<forall>i < length outcomes. outcomes ! i \<noteq> None" by simp
  have "promiseAll_run order outcomes (replicate (length outcomes) None) = Fulfilled (map the outcomes)"
    using a assms by (intro promiseAll_run_fulfilled) auto
  then show ?thesis using True by (simp add: promiseAll_def)
next
  case False
  then obtain i where "i < length outcomes" "outcomes ! i = None"
    by (auto simp: in_set_conv_nth)
  then have "\<exists>i \<in> set order. i < length outcomes \<and> outcomes ! i = None"
    using assms by auto
  then have "promiseAll_run order outcomes (replicate (length outcomes) None) = Rejected"
    by (rule promiseAll_run_rejected)
  then show ?thesis using False by (simp add: promiseAll_def)
qed

text \<open>
  C7: when every task of the batch settles, in whatever order, \<open>processAndAddFiles\<close>
  completes; if no task rejects, the list of files is the old list followed by the
  results of all tasks in submission order, and if any task rejects the list is
  unchanged. There is one task for each file of the batch that passes the allow-list.
\<close>

theorem batch_all_or_nothing:
  assumes "{..<length (filter isValidFile filesToAdd)} \<subseteq> set order"
  shows "\<exists>st'. processAndAddFiles env order st filesToAdd = Fulfilled st'
      \<and> files st' =
          (if \<forall>t \<in> set (tasks env st filesToAdd). t \<noteq> None
           then files st @ map the (tasks env st filesToAdd)
           else files st)
      \<and> length (tasks env st filesToAdd) = length (filter isValidFile filesToAdd)"
proof (cases "filter isValidFile filesToAdd = []")
  case True
  then show ?thesis by (simp add: processAndAddFiles_def tasks_def)
next
  case False
  have l: "length (tasks env st filesToAdd) = length (filter isValidFile filesToAdd)"
    by (simp add: tasks_def)
  have p: "promiseAll order (tasks env st filesToAdd) =
           (if \<forall>t \<in> set (tasks env st filesToAdd). t \<noteq> None
            then Fulfilled (map the (tasks env st filesToAdd)) else Rejected)"
    using assms by (intro promiseAll_settles) (simp add: l)
  show ?thesis
  proof (cases "\<forall>t \<in> set (tasks env st filesToAdd). t \<noteq> None")
    case t: True
    have p': "promiseAll order (tasks env st filesToAdd) = Fulfilled (map the (tasks env st filesToAdd))"
      by (simp only: p if_P [OF t])
    have "processAndAddFiles env order st filesToAdd =
        Fulfilled (st\<lparr>isProcessing := False, error_message := None,
                     files := files st @ map the (tasks env st filesToAdd)\<rparr>)"
      unfolding processAndAddFiles_def Let_def tasks_def [symmetric] using False p' by simp
    then have "processAndAddFiles env order st filesToAdd =
        Fulfilled (st\<lparr>isProcessing := False, error_message := None,
                     files := files st @ map the (tasks env st filesToAdd)\<rparr>)
      \<and> files (st\<lparr>isProcessing := False, error_message := None,
                     files := files st @ map the (tasks env st filesToAdd)\<rparr>) =
          files st @ map the (tasks env st filesToAdd)
      \<and> length (tasks env st filesToAdd) = length (filter isValidFile filesToAdd)"
      using l by simp
    then show ?thesis unfolding if_P [OF t] by (rule exI)
  next
    case f: False
    have p': "promiseAll order (tasks env st filesToAdd) = Rejected"
      by (simp only: p if_not_P [OF f])
    have "processAndAddFiles env order st filesToAdd =
        Fulfilled (st\<lparr>isProcessing := False, error_message := Some ProcessingFailed\<rparr>)"
      unfolding processAndAddFiles_def Let_def tasks_def [symmetric] using False p' by simp
    then have "processAndAddFiles env order st filesToAdd =
        Fulfilled (st\<lparr>isProcessing := False, error_message := Some ProcessingFailed\<rparr>)
      \<and> files (st\<lparr>isProcessing := False, error_message := Some ProcessingFailed\<rparr>) = files st
      \<and> length (tasks env st filesToAdd) = length (filter isValidFile filesToAdd)"
      using l by simp
    then show ?thesis unfolding if_not_P [OF f] by (rule exI)
  qed
qed

lemma ex_not_office:
  "\<not> includes_str ''application/pdf'' ''word''"
  "\<not> includes_str ''application/pdf'' ''excel''"
  "\<not> includes_str ''application/pdf'' ''spreadsheet''"
  "\<not> endsWith ''a.pdf'' ''.doc''" "\<not> endsWith ''a.pdf'' ''.docx''"
  "\<not> endsWith ''a.pdf'' ''.xls''" "\<not> endsWith ''a.pdf'' ''.xlsx''"
  "\<not> endsWith ''b.pdf'' ''.doc''" "\<not> endsWith ''b.pdf'' ''.docx''"
  "\<not> endsWith ''b.pdf'' ''.xls''" "\<not> endsWith ''b.pdf'' ''.xlsx''"
  by (simp_all add: includes_str_def sublist_code prefix_code endsWith_def suffix_to_prefix)

lemma ex_valid: "isValidFile (exFile n ps)" "isValidFile exPhoto"
  by (simp_all add: isValidFile_def allowedTypes_def exFile_def exPhoto_def)

lemma enumerate_two: "enumerate 0 [x, y] = [(0, x), (Suc 0, y)]"
  by simp

lemma ex_process_a:
  "processFile exConverters c k (exFile ''a.pdf'' ps) = Some (exAdded ''a.pdf'' ps)"
  unfolding processFile_def
  by (simp add: exFile_def ex_not_office exConverters_def exAdded_def)

lemma ex_process_b:
  "processFile exConverters c k (exFile ''b.pdf'' ps) = Some (exAdded ''b.pdf'' ps)"
  unfolding processFile_def
  by (simp add: exFile_def ex_not_office exConverters_def exAdded_def)

lemma ex_process_photo: "processFile exConverters c k exPhoto = None"
  unfolding processFile_def
  by (simp add: exPhoto_def exConverters_def)

lemma ex_tasks_ok:
  "tasks exConverters exMergeState [exFile ''a.pdf'' [exPage 1 0], exFile ''b.pdf'' [exPage 2 0]] =
     [Some (exAdded ''a.pdf'' [exPage 1 0]), Some (exAdded ''b.pdf'' [exPage 2 0])]"
  by (simp add: tasks_def ex_valid enumerate_two ex_process_a ex_process_b)

lemma ex_tasks_failed:
  "tasks exConverters exMergeState [exFile ''a.pdf'' [exPage 1 0], exPhoto] =
     [Some (exAdded ''a.pdf'' [exPage 1 0]), None]"
  by (simp add: tasks_def ex_valid enumerate_two ex_process_a ex_process_photo)

theorem batch_all_or_nothing_witness:
  "(\<exists>st'. processAndAddFiles exConverters [1, 0] exMergeState
            [exFile ''a.pdf'' [exPage 1 0], exFile ''b.pdf'' [exPage 2 0]] = Fulfilled st'
        \<and> files st' = [exAdded ''a.pdf'' [exPage 1 0], exAdded ''b.pdf'' [exPage 2 0]])
   \<and> (\<exists>st'. processAndAddFiles exConverters [1, 0] exMergeState
            [exFile ''a.pdf'' [exPage 1 0], exPhoto] = Fulfilled st'
        \<and> files st' = [])"
proof -
  have o: "{..<length (filter isValidFile [x, y])} \<subseteq> set [1, 0::nat]" for x y
    by (cases "isValidFile x"; cases "isValidFile y") auto
  have f: "files exMergeState = []" by (simp add: exMergeState_def)
  from batch_all_or_nothing [of "[exFile ''a.pdf'' [exPage 1 0], exFile ''b.pdf'' [exPage 2 0]]"
      "[1, 0]" exConverters exMergeState, OF o]
  obtain st1 where s1: "processAndAddFiles exConverters [1, 0] exMergeState
            [exFile ''a.pdf'' [exPage 1 0], exFile ''b.pdf'' [exPage 2 0]] = Fulfilled st1"
    and f1: "files st1 =
          (if \<forall>t \<in> set (tasks exConverters exMergeState
                  [exFile ''a.pdf'' [exPage 1 0], exFile ''b.pdf'' [exPage 2 0]]). t \<noteq> None
           then files exMergeState @ map the (tasks exConverters exMergeState
                  [exFile ''a.pdf'' [exPage 1 0], exFile ''b.pdf'' [exPage 2 0]])
           else files exMergeState)"
    by blast
  have g1: "files st1 = [exAdded ''a.pdf'' [exPage 1 0], exAdded ''b.pdf'' [exPage 2 0]]"
    unfolding f1 ex_tasks_ok f by simp
  from batch_all_or_nothing [of "[exFile ''a.pdf'' [exPage 1 0], exPhoto]"
      "[1, 0]" exConverters exMergeState, OF o]
  obtain st2 where s2: "processAndAddFiles exConverters [1, 0] exMergeState
            [exFile ''a.pdf'' [exPage 1 0], exPhoto] = Fulfilled st2"
    and f2: "files st2 =
          (if \<forall>t \<in> set (tasks exConverters exMergeState
                  [exFile ''a.pdf'' [exPage 1 0], exPhoto]). t \<noteq> None
           then files exMergeState @ map the (tasks exConverters exMergeState
                  [exFile ''a.pdf'' [exPage 1 0], exPhoto])
           else files exMergeState)"
    by blast
  have g2: "files st2 = []"
    unfolding f2 ex_tasks_failed f by simp
  show ?thesis using s1 g1 s2 g2 by blast
qed

end
